theory Spec2Isabelle
  imports Main
begin

section \<open>JavaScript values\<close>

text \<open>
  The engine stores arbitrary JavaScript values and compares them with \<^verbatim>\<open>===\<close>,
  \<^verbatim>\<open>!==\<close>, \<^verbatim>\<open>==\<close>, \<^verbatim>\<open>typeof\<close> and by truthiness. Primitives are
  modelled by value, objects (plain objects, arrays) and functions by the identity of
  their reference. Finite numbers are whole numbers here; the not-a-number value is kept
  apart because it is the one value that is not strictly equal to itself.
\<close>

type_synonym key = string

datatype jsval =
    JUndefined
  | JNull
  | JBool bool
  | JNum int
  | JNaN
  | JStr string
  | JObj nat
  | JFun nat

text \<open>\<^verbatim>\<open>a === b\<close>.\<close>

definition strict_eq :: "jsval \<Rightarrow> jsval \<Rightarrow> bool" where
  "strict_eq a b = (a = b \<and> a \<noteq> JNaN)"

text \<open>The value as a condition: \<^verbatim>\<open>if (v)\<close>, \<^verbatim>\<open>v || w\<close>, \<^verbatim>\<open>!v\<close>.\<close>

fun truthy :: "jsval \<Rightarrow> bool" where
  "truthy JUndefined = False"
| "truthy JNull = False"
| "truthy (JBool b) = b"
| "truthy (JNum n) = (n \<noteq> 0)"
| "truthy JNaN = False"
| "truthy (JStr s) = (s \<noteq> [])"
| "truthy (JObj a) = True"
| "truthy (JFun f) = True"

fun typeof :: "jsval \<Rightarrow> string" where
  "typeof JUndefined = ''undefined''"
| "typeof JNull = ''object''"
| "typeof (JBool b) = ''boolean''"
| "typeof (JNum n) = ''number''"
| "typeof JNaN = ''number''"
| "typeof (JStr s) = ''string''"
| "typeof (JObj a) = ''object''"
| "typeof (JFun f) = ''function''"

text \<open>
  \<^verbatim>\<open>a == b\<close> for a left operand whose \<^verbatim>\<open>typeof\<close> is \<^verbatim>\<open>"object"\<close> (the only
  use the engine makes of loose equality). \<^verbatim>\<open>null\<close> is loosely equal to \<^verbatim>\<open>null\<close> and
  \<^verbatim>\<open>undefined\<close> only; two references are equal when they are the same reference; an
  object against a primitive is converted first, which depends on the object's contents:
  \<open>conv a p\<close> says whether the object at \<open>a\<close> converts to a primitive loosely equal
  to \<open>p\<close>.
\<close>

fun loose_eq_object :: "(nat \<Rightarrow> jsval \<Rightarrow> bool) \<Rightarrow> jsval \<Rightarrow> jsval \<Rightarrow> bool" where
  "loose_eq_object conv JNull b = (b = JNull \<or> b = JUndefined)"
| "loose_eq_object conv (JObj a) JUndefined = False"
| "loose_eq_object conv (JObj a) JNull = False"
| "loose_eq_object conv (JObj a) (JObj b) = (a = b)"
| "loose_eq_object conv (JObj a) (JFun f) = False"
| "loose_eq_object conv (JObj a) p = conv a p"
| "loose_eq_object conv a b = False"

text \<open>
  What an operation raises. A raise ends the operation: where the kind of the error
  matters the result is \<open>Inl\<close> of the error.
\<close>

datatype error = TypeError | ReferenceError | NotFoundError | DataCloneError

section \<open>Objects and the properties they inherit\<close>

text \<open>
  The state object of a store and the object a scope wraps are ordinary objects. The
  engine tests \<^verbatim>\<open>key in target\<close>, reads \<^verbatim>\<open>target[key]\<close> and assigns
  \<^verbatim>\<open>target[key] = value\<close>; all three follow the prototype chain. An object is
  therefore the map of its own properties together with the map of the properties it
  finds on its prototype chain. In \<open>inherited\<close> the accessor \<^verbatim>\<open>__proto__\<close> of
  \<^verbatim>\<open>Object.prototype\<close> appears with the value its getter returns, the prototype.
  Own properties are writable and enumerable data properties, the objects are
  extensible, and inherited data properties are writable, as for objects written as
  literals over an unfrozen \<^verbatim>\<open>Object.prototype\<close>.

  \<open>objectPrototype\<close> lists what an object literal inherits: the properties of
  \<^verbatim>\<open>Object.prototype\<close>, which are functions but for \<^verbatim>\<open>__proto__\<close>, whose value
  is \<^verbatim>\<open>Object.prototype\<close> itself (the object 0).
\<close>

record jsobject =
  own :: "key \<rightharpoonup> jsval"
  inherited :: "key \<rightharpoonup> jsval"

definition objectPrototype :: "key \<rightharpoonup> jsval" where
  "objectPrototype =
     [''constructor'' \<mapsto> JFun 0, ''__defineGetter__'' \<mapsto> JFun 1, ''__defineSetter__'' \<mapsto> JFun 2,
      ''hasOwnProperty'' \<mapsto> JFun 3, ''__lookupGetter__'' \<mapsto> JFun 4,
      ''__lookupSetter__'' \<mapsto> JFun 5, ''isPrototypeOf'' \<mapsto> JFun 6,
      ''propertyIsEnumerable'' \<mapsto> JFun 7, ''toString'' \<mapsto> JFun 8, ''valueOf'' \<mapsto> JFun 9,
      ''toLocaleString'' \<mapsto> JFun 10, ''__proto__'' \<mapsto> JObj 0]"

definition object_literal :: "(key \<rightharpoonup> jsval) \<Rightarrow> jsobject" where
  "object_literal props = \<lparr>own = props, inherited = objectPrototype\<rparr>"

text \<open>\<^verbatim>\<open>key in obj\<close> and \<^verbatim>\<open>obj[key]\<close>.\<close>

definition has_property :: "jsobject \<Rightarrow> key \<Rightarrow> bool" where
  "has_property obj k = (k \<in> dom (own obj) \<or> k \<in> dom (inherited obj))"

definition get_prop :: "jsobject \<Rightarrow> key \<Rightarrow> jsval" where
  "get_prop obj k =
     (case own obj k of
        Some v \<Rightarrow> v
      | None \<Rightarrow> (case inherited obj k of Some v \<Rightarrow> v | None \<Rightarrow> JUndefined))"

text \<open>
  \<^verbatim>\<open>obj[key] = value\<close>. An own property is overwritten. An inherited data property
  is shadowed by a new own property, and so is a key found nowhere. The one inherited
  accessor is \<^verbatim>\<open>__proto__\<close>: the assignment calls its setter, which makes no own
  property; it ignores a value that is neither an object nor \<^verbatim>\<open>null\<close> and otherwise
  gives the object another prototype, or raises (a cycle). \<open>setProto obj v\<close> is what
  the object inherits afterwards, \<open>None\<close> when the setter raises. The result is
  \<open>None\<close> when the assignment raises.
\<close>

definition is_accessor :: "jsobject \<Rightarrow> key \<Rightarrow> bool" where
  "is_accessor obj k = (k = ''__proto__'' \<and> k \<notin> dom (own obj) \<and> k \<in> dom (inherited obj))"

fun is_object_or_null :: "jsval \<Rightarrow> bool" where
  "is_object_or_null (JObj a) = True"
| "is_object_or_null (JFun f) = True"
| "is_object_or_null JNull = True"
| "is_object_or_null v = False"

definition put_prop ::
  "(jsobject \<Rightarrow> jsval \<Rightarrow> (key \<rightharpoonup> jsval) option) \<Rightarrow> key \<Rightarrow> jsval \<Rightarrow> jsobject \<Rightarrow> jsobject option" where
  "put_prop setProto k v obj =
     (if is_accessor obj k then
        (if is_object_or_null v
         then map_option (\<lambda>m. obj\<lparr>inherited := m\<rparr>) (setProto obj v)
         else Some obj)
      else Some (obj\<lparr>own := (own obj)(k \<mapsto> v)\<rparr>))"

section \<open>The reactive store (class ReactiveState)\<close>

text \<open>
  A callback is a closure supplied by the caller (or an update closure of the engine); the
  store stores it and calls it. It is modelled by its identity. Every call
  \<^verbatim>\<open>callback()\<close> is recorded, in order, in the trace \<open>calls\<close>, and then the body
  runs: \<open>run h cb st\<close> is the store the body of \<open>cb\<close> leaves when it is called on
  the store \<open>st\<close>, with everything it did to the store through the store's operations
  (writes of keys, subscriptions, registrations), the calls these caused included; it is
  \<open>None\<close> when the call does not return (the body raises or runs forever). The host
  \<open>h\<close> holds the bodies, and \<open>setPrototypeOf\<close>, the outcome of the
  \<^verbatim>\<open>__proto__\<close> setter. An operation of the store that calls callbacks has an
  optional result: \<open>None\<close> when it does not return.

  \<open>subscribers\<close> is the \<^verbatim>\<open>Map\<close> from a key to a \<^verbatim>\<open>Set\<close> of callbacks. A
  \<^verbatim>\<open>Set\<close> is the list of its entries in insertion order; \<^verbatim>\<open>delete\<close> empties the
  entry of the value (\<open>None\<close>) without moving the others, \<^verbatim>\<open>add\<close> appends a value the
  set does not hold. \<open>expressions\<close> is the array of \<^verbatim>\<open>{ variables, callback }\<close>
  objects; \<open>dep_id\<close> is the identity of such an object, taken from the allocation
  counter \<open>allocated\<close>.
\<close>

type_synonym callback = nat

record dependencies =
  dep_id :: nat
  variables :: "key list"
  callback :: callback

record ReactiveState =
  state :: jsobject
  subscribers :: "key \<rightharpoonup> callback option list"
  expressions :: "dependencies list"
  allocated :: nat
  calls :: "callback list"

record Host =
  run :: "callback \<Rightarrow> ReactiveState \<Rightarrow> ReactiveState option"
  setPrototypeOf :: "jsobject \<Rightarrow> jsval \<Rightarrow> (key \<rightharpoonup> jsval) option"

definition new_ReactiveState :: "jsobject \<Rightarrow> ReactiveState" where
  "new_ReactiveState initialState =
     \<lparr>state = initialState, subscribers = Map.empty, expressions = [], allocated = 0,
      calls = []\<rparr>"

definition invoke :: "Host \<Rightarrow> callback \<Rightarrow> ReactiveState \<Rightarrow> ReactiveState option" where
  "invoke h cb st = run h cb (st\<lparr>calls := calls st @ [cb]\<rparr>)"

text \<open>
  \<^verbatim>\<open>#notify(key)\<close>: \<^verbatim>\<open>for (const callback of this.subscribers.get(key)) callback()\<close>.
  The iterator of a \<^verbatim>\<open>Set\<close> walks the entries by position and looks at the set
  again after every call: it skips an emptied entry and reaches an entry a callback has
  added. The loop need not end, so the function is partial.
\<close>

partial_function (option) notify_from :: "Host \<Rightarrow> key \<Rightarrow> nat \<Rightarrow> ReactiveState \<Rightarrow> ReactiveState option" where
  "notify_from h k i st =
     (case subscribers st k of
        None \<Rightarrow> Some st
      | Some entries \<Rightarrow>
          if i < length entries then
            (case entries ! i of
               None \<Rightarrow> notify_from h k (Suc i) st
             | Some cb \<Rightarrow> Option.bind (invoke h cb st) (notify_from h k (Suc i)))
          else Some st)"

definition notify :: "Host \<Rightarrow> key \<Rightarrow> ReactiveState \<Rightarrow> ReactiveState option" where
  "notify h k st = notify_from h k 0 st"

text \<open>
  \<^verbatim>\<open>#checkExpression(changedKey)\<close>: \<^verbatim>\<open>this.expressions.forEach(...)\<close>.
  \<^verbatim>\<open>forEach\<close> takes the length of the array once and then reads the element at every
  index below it when it gets there; an index the array no longer has is skipped.
\<close>

fun check_from :: "Host \<Rightarrow> key \<Rightarrow> nat \<Rightarrow> nat \<Rightarrow> ReactiveState \<Rightarrow> ReactiveState option" where
  "check_from h changedKey i 0 st = Some st"
| "check_from h changedKey i (Suc n) st =
     (if i < length (expressions st) \<and> changedKey \<in> set (variables (expressions st ! i))
      then Option.bind (invoke h (callback (expressions st ! i)) st)
             (check_from h changedKey (Suc i) n)
      else check_from h changedKey (Suc i) n st)"

definition checkExpression :: "Host \<Rightarrow> key \<Rightarrow> ReactiveState \<Rightarrow> ReactiveState option" where
  "checkExpression h changedKey st = check_from h changedKey 0 (length (expressions st)) st"

text \<open>The \<^verbatim>\<open>get\<close> and \<^verbatim>\<open>set\<close> traps of \<^verbatim>\<open>this.proxy\<close> (the set trap returns true).\<close>

definition proxy_get :: "ReactiveState \<Rightarrow> key \<Rightarrow> jsval" where
  "proxy_get st k = (if has_property (state st) k then get_prop (state st) k else JUndefined)"

definition proxy_set :: "Host \<Rightarrow> key \<Rightarrow> jsval \<Rightarrow> ReactiveState \<Rightarrow> ReactiveState option" where
  "proxy_set h k v st =
     (if \<not> strict_eq (get_prop (state st) k) v then
        (case put_prop (setPrototypeOf h) k v (state st) of
           None \<Rightarrow> None
         | Some obj \<Rightarrow> Option.bind (notify h k (st\<lparr>state := obj\<rparr>)) (checkExpression h k))
      else Some st)"


text \<open>\<^verbatim>\<open>subscribe(key, callback)\<close> and the \<^verbatim>\<open>unsubscribe\<close> of the handle it returns.\<close>

definition subscribe :: "key \<Rightarrow> callback \<Rightarrow> ReactiveState \<Rightarrow> ReactiveState" where
  "subscribe k cb st =
     (let subs = (if k \<notin> dom (subscribers st) then (subscribers st)(k \<mapsto> [])
                  else subscribers st);
          entries = (case subs k of None \<Rightarrow> [] | Some s \<Rightarrow> s)
      in st\<lparr>subscribers :=
              (if Some cb \<notin> set entries then subs(k \<mapsto> entries @ [Some cb]) else subs)\<rparr>)"

definition subscribe_unsubscribe :: "key \<Rightarrow> callback \<Rightarrow> ReactiveState \<Rightarrow> ReactiveState" where
  "subscribe_unsubscribe k cb st =
     (case subscribers st k of
        None \<Rightarrow> st
      | Some entries \<Rightarrow>
          st\<lparr>subscribers :=
               (subscribers st)(k \<mapsto> map (\<lambda>e. if e = Some cb then None else e) entries)\<rparr>)"

text \<open>
  \<^verbatim>\<open>Array.prototype.findIndex\<close> (-1 when no element satisfies the test) and
  \<^verbatim>\<open>Array.prototype.slice(start, end)\<close>, which returns a copy of a range and leaves
  the array as it is; a negative bound counts from the end.
\<close>

fun findIndex_from :: "int \<Rightarrow> ('a \<Rightarrow> bool) \<Rightarrow> 'a list \<Rightarrow> int" where
  "findIndex_from i p [] = -1"
| "findIndex_from i p (x # xs) = (if p x then i else findIndex_from (i + 1) p xs)"

definition findIndex :: "('a \<Rightarrow> bool) \<Rightarrow> 'a list \<Rightarrow> int" where
  "findIndex p xs = findIndex_from 0 p xs"

definition slice_bound :: "int \<Rightarrow> nat \<Rightarrow> nat" where
  "slice_bound i n = (if i < 0 then nat (max (int n + i) 0) else min (nat i) n)"

definition slice :: "int \<Rightarrow> int \<Rightarrow> 'a list \<Rightarrow> 'a list" where
  "slice start stop xs =
     (let lo = slice_bound start (length xs); hi = slice_bound stop (length xs)
      in take (hi - lo) (drop lo xs))"

text \<open>
  \<^verbatim>\<open>addExpression(variables, callback)\<close> pushes a new dependencies object and returns a
  handle; the result here is the identity of that object and the store. The handle's
  \<^verbatim>\<open>unsubscribe\<close> looks for the first object that is \<^emph>\<open>not\<close> the one registered and
  calls \<^verbatim>\<open>slice\<close>, whose result it drops.
\<close>

definition addExpression :: "key list \<Rightarrow> callback \<Rightarrow> ReactiveState \<Rightarrow> nat \<times> ReactiveState" where
  "addExpression vars cb st =
     (let d = \<lparr>dep_id = allocated st, variables = vars, callback = cb\<rparr>
      in (dep_id d, st\<lparr>expressions := expressions st @ [d], allocated := Suc (allocated st)\<rparr>))"

definition addExpression_unsubscribe :: "nat \<Rightarrow> ReactiveState \<Rightarrow> ReactiveState" where
  "addExpression_unsubscribe d st =
     (let index = findIndex (\<lambda>obj. dep_id obj \<noteq> d) (expressions st);
          dropped = slice index 1 (expressions st)
      in st)"

text \<open>
  A body acts on the store through the store's operations. Such a body is the list of the
  operations it performs, which it chooses by the state object it finds:
  \<^verbatim>\<open>store.proxy[k] = v\<close>, \<^verbatim>\<open>store.subscribe(k, cb)\<close>, the \<^verbatim>\<open>unsubscribe\<close> of a
  handle, \<^verbatim>\<open>store.addExpression(keys, cb)\<close>, and \<^verbatim>\<open>throw\<close>. \<open>api_host body sp n\<close> is
  the host of the bodies \<open>body\<close>; \<open>n\<close> bounds how deep the calls may nest, and a
  call beyond that depth does not return.
\<close>

datatype action =
    Write key jsval
  | Subscribe key callback
  | Unsubscribe key callback
  | AddExpression "key list" callback
  | Throw

fun perform :: "Host \<Rightarrow> action \<Rightarrow> ReactiveState \<Rightarrow> ReactiveState option" where
  "perform h (Write k v) st = proxy_set h k v st"
| "perform h (Subscribe k cb) st = Some (subscribe k cb st)"
| "perform h (Unsubscribe k cb) st = Some (subscribe_unsubscribe k cb st)"
| "perform h (AddExpression ks cb) st = Some (snd (addExpression ks cb st))"
| "perform h Throw st = None"

fun perform_all :: "Host \<Rightarrow> action list \<Rightarrow> ReactiveState \<Rightarrow> ReactiveState option" where
  "perform_all h [] st = Some st"
| "perform_all h (a # as) st = Option.bind (perform h a st) (perform_all h as)"

primrec api_run ::
  "(callback \<Rightarrow> jsobject \<Rightarrow> action list) \<Rightarrow> (jsobject \<Rightarrow> jsval \<Rightarrow> (key \<rightharpoonup> jsval) option)
     \<Rightarrow> nat \<Rightarrow> callback \<Rightarrow> ReactiveState \<Rightarrow> ReactiveState option" where
  "api_run body sp 0 cb st = None"
| "api_run body sp (Suc n) cb st =
     perform_all \<lparr>run = api_run body sp n, setPrototypeOf = sp\<rparr> (body cb (state st)) st"

definition api_host ::
  "(callback \<Rightarrow> jsobject \<Rightarrow> action list) \<Rightarrow> (jsobject \<Rightarrow> jsval \<Rightarrow> (key \<rightharpoonup> jsval) option)
     \<Rightarrow> nat \<Rightarrow> Host" where
  "api_host body sp n = \<lparr>run = api_run body sp n, setPrototypeOf = sp\<rparr>"

text \<open>
  Three hosts. In \<open>quiet_host\<close> no callback touches the store. In \<open>raising_host\<close>
  the callback 1 raises and every other callback leaves the store alone. In
  \<open>clamp_host n\<close> the callback 1 is
  \<^verbatim>\<open>() => { if (store.proxy.count > 10) store.proxy.count = 10 }\<close> and every other
  callback leaves the store alone.
\<close>

definition quiet_host :: Host where
  "quiet_host = \<lparr>run = (\<lambda>cb st. Some st), setPrototypeOf = (\<lambda>obj v. None)\<rparr>"

definition raising_host :: Host where
  "raising_host =
     \<lparr>run = (\<lambda>cb st. if cb = 1 then None else Some st), setPrototypeOf = (\<lambda>obj v. None)\<rparr>"



text \<open>
  A host is orderly when a callback that returns has only added to the trace and to the
  array of expressions. The trace is a record of what happened, and the store has no
  operation that takes an expression out of the array or replaces one: every host of
  bodies that act through the store's operations is orderly (lemma
  \<open>api_host_orderly\<close> below).
\<close>

definition grown :: "ReactiveState \<Rightarrow> ReactiveState \<Rightarrow> bool" where
  "grown s s' = ((\<exists>xs. calls s' = calls s @ xs) \<and> (\<exists>ys. expressions s' = expressions s @ ys))"

definition orderly :: "Host \<Rightarrow> bool" where
  "orderly h = (\<forall>cb s s'. run h cb s = Some s' \<longrightarrow> grown s s')"

text \<open>
  A host is steady when every callback returns and leaves the sets of subscribers as they
  are. Under a steady host the loop over a set of subscribers ends.
\<close>

definition steady :: "Host \<Rightarrow> bool" where
  "steady h = (\<forall>cb s. \<exists>s'. run h cb s = Some s' \<and> subscribers s' = subscribers s)"

subsection \<open>Facts about notification\<close>

lemma notify_from_none:
  "subscribers st k = None \<Longrightarrow> notify_from h k i st = Some st"
  by (subst notify_from.simps) simp

lemma notify_from_end:
  "subscribers st k = Some entries \<Longrightarrow> \<not> i < length entries \<Longrightarrow> notify_from h k i st = Some st"
  by (subst notify_from.simps) simp

lemma notify_from_hole:
  "subscribers st k = Some entries \<Longrightarrow> i < length entries \<Longrightarrow> entries ! i = None \<Longrightarrow>
   notify_from h k i st = notify_from h k (Suc i) st"
  by (subst notify_from.simps) simp

lemma notify_from_call:
  "subscribers st k = Some entries \<Longrightarrow> i < length entries \<Longrightarrow> entries ! i = Some cb \<Longrightarrow>
   notify_from h k i st = Option.bind (invoke h cb st) (notify_from h k (Suc i))"
  by (subst notify_from.simps) simp

lemmas notify_from_eval = notify_from_none notify_from_end notify_from_hole notify_from_call

lemmas store_eval =
  proxy_set_def notify_def checkExpression_def invoke_def notify_from_eval
  get_prop_def put_prop_def is_accessor_def strict_eq_def object_literal_def


text \<open>What every call keeps, the two loops keep, and so does a write.\<close>

lemma notify_from_invariant:
  assumes r: "notify_from h k i st = Some st'"
    and step: "\<And>cb s s'. invoke h cb s = Some s' \<Longrightarrow> P s \<Longrightarrow> P s'"
    and init: "P st"
  shows "P st'"
proof -
  have "(\<forall>cb s s'. invoke h cb s = Some s' \<longrightarrow> P s \<longrightarrow> P s') \<longrightarrow> P st \<longrightarrow> P st'"
  proof (rule notify_from.raw_induct
      [where P = "\<lambda>h k i st st'. (\<forall>cb s s'. invoke h cb s = Some s' \<longrightarrow> P s \<longrightarrow> P s') \<longrightarrow> P st \<longrightarrow> P st'",
       OF _ r])
    fix f h k i st y
    assume ih: "\<And>h k i st y. f h k i st = Some y \<Longrightarrow>
        (\<forall>cb s s'. invoke h cb s = Some s' \<longrightarrow> P s \<longrightarrow> P s') \<longrightarrow> P st \<longrightarrow> P y"
      and body: "(case subscribers st k of
          None \<Rightarrow> Some st
        | Some entries \<Rightarrow>
            if i < length entries then
              (case entries ! i of
                 None \<Rightarrow> f h k (Suc i) st
               | Some cb \<Rightarrow> Option.bind (invoke h cb st) (f h k (Suc i)))
            else Some st) = Some y"
    show "(\<forall>cb s s'. invoke h cb s = Some s' \<longrightarrow> P s \<longrightarrow> P s') \<longrightarrow> P st \<longrightarrow> P y"
      using body ih
      by (auto split: option.splits if_splits simp: bind_eq_Some_conv)
  qed
  with step init show ?thesis by blast
qed

lemma check_from_invariant:
  assumes step: "\<And>cb s s'. invoke h cb s = Some s' \<Longrightarrow> P s \<Longrightarrow> P s'"
  shows "check_from h k i n st = Some st' \<Longrightarrow> P st \<Longrightarrow> P st'"
proof (induction n arbitrary: i st)
  case 0
  then show ?case by simp
next
  case (Suc n)
  show ?case
  proof (cases "i < length (expressions st) \<and> k \<in> set (variables (expressions st ! i))")
    case True
    with Suc.prems(1) obtain s1 where
      a: "invoke h (callback (expressions st ! i)) st = Some s1"
      and b: "check_from h k (Suc i) n s1 = Some st'"
      by (auto simp: bind_eq_Some_conv)
    from step [OF a Suc.prems(2)] have "P s1" .
    with Suc.IH [OF b] show ?thesis .
  next
    case False
    with Suc.prems(1) have "check_from h k (Suc i) n st = Some st'" by auto
    from Suc.IH [OF this Suc.prems(2)] show ?thesis .
  qed
qed

lemma proxy_set_invariant:
  assumes r: "proxy_set h k v st = Some st'"
    and ne: "\<not> strict_eq (get_prop (state st) k) v"
    and step: "\<And>cb s s'. invoke h cb s = Some s' \<Longrightarrow> P s \<Longrightarrow> P s'"
    and init: "\<And>obj. put_prop (setPrototypeOf h) k v (state st) = Some obj \<Longrightarrow> P (st\<lparr>state := obj\<rparr>)"
  shows "P st'"
proof -
  from r ne obtain obj s1 where
    o: "put_prop (setPrototypeOf h) k v (state st) = Some obj"
    and n: "notify_from h k 0 (st\<lparr>state := obj\<rparr>) = Some s1"
    and c: "check_from h k 0 (length (expressions s1)) s1 = Some st'"
    by (auto simp: proxy_set_def notify_def checkExpression_def bind_eq_Some_conv split: option.splits)
  have s1: "P s1"
    by (rule notify_from_invariant [where P = P, OF n step init [OF o]])
  show ?thesis
    by (rule check_from_invariant [where P = P and h = h, OF step c s1])
qed

text \<open>A write of the value the store holds does nothing.\<close>

lemma proxy_set_same: "strict_eq (get_prop (state st) k) v \<Longrightarrow> proxy_set h k v st = Some st"
  by (simp add: proxy_set_def)

lemma put_prop_ordinary:
  "\<not> is_accessor obj k \<Longrightarrow> put_prop sp k v obj = Some (obj\<lparr>own := (own obj)(k \<mapsto> v)\<rparr>)"
  by (simp add: put_prop_def)


lemma addExpression_unsubscribe_keeps: "addExpression_unsubscribe d st = st"
  by (simp add: addExpression_unsubscribe_def Let_def)

text \<open>
  Under an orderly host a write that changes a key of a registered expression and
  returns has called the expression's callback.
\<close>

lemma grown_refl: "grown s s"
  by (simp add: grown_def)

lemma grown_trans: "grown a b \<Longrightarrow> grown b c \<Longrightarrow> grown a c"
  by (auto simp: grown_def)

lemma invoke_grown:
  assumes "orderly h" and "invoke h cb s = Some s'"
  shows "(\<exists>xs. calls s' = calls s @ cb # xs) \<and> (\<exists>ys. expressions s' = expressions s @ ys)"
  using assms by (fastforce simp: orderly_def invoke_def grown_def)

lemma invoke_grown':
  assumes "orderly h" and "invoke h cb s = Some s'"
  shows "grown s s'"
  using invoke_grown [OF assms] by (auto simp: grown_def)







lemma proxy_set_grown:
  assumes ord: "orderly h" and r: "proxy_set h k v st = Some st'"
  shows "grown st st'"
proof (cases "strict_eq (get_prop (state st) k) v")
  case True
  with r show ?thesis by (simp add: proxy_set_same grown_refl)
next
  case False
  show ?thesis
  proof (rule proxy_set_invariant [OF r False, where P = "grown st"])
    fix cb s s'
    assume "invoke h cb s = Some s'" and "grown st s"
    with invoke_grown' [OF ord] show "grown st s'"
      by (blast intro: grown_trans)
  next
    fix obj
    show "grown st (st\<lparr>state := obj\<rparr>)"
      by (simp add: grown_def)
  qed
qed

lemma perform_grown:
  assumes "orderly h" and "perform h a st = Some st'"
  shows "grown st st'"
proof (cases a)
  case (Write k v)
  with assms show ?thesis by (simp add: proxy_set_grown)
next
  case (Subscribe k cb)
  with assms(2) show ?thesis by (auto simp: grown_def subscribe_def Let_def)
next
  case (Unsubscribe k cb)
  with assms(2) show ?thesis by (auto simp: grown_def subscribe_unsubscribe_def split: option.splits)
next
  case (AddExpression ks cb)
  with assms(2) show ?thesis by (auto simp: grown_def addExpression_def Let_def)
next
  case Throw
  with assms(2) show ?thesis by simp
qed

lemma perform_all_grown:
  assumes "orderly h"
  shows "perform_all h as st = Some st' \<Longrightarrow> grown st st'"
proof (induction as arbitrary: st)
  case Nil
  then show ?case by (simp add: grown_refl)
next
  case (Cons a as)
  then obtain s1 where a: "perform h a st = Some s1" and b: "perform_all h as s1 = Some st'"
    by (auto simp: bind_eq_Some_conv)
  from perform_grown [OF assms a] Cons.IH [OF b] show ?case
    by (rule grown_trans)
qed

lemma api_host_orderly: "orderly (api_host body sp n)"
proof (induction n)
  case 0
  show ?case by (simp add: orderly_def api_host_def)
next
  case (Suc n)
  show ?case
    unfolding orderly_def
  proof (intro allI impI)
    fix cb s s'
    assume "run (api_host body sp (Suc n)) cb s = Some s'"
    then have "perform_all (api_host body sp n) (body cb (state s)) s = Some s'"
      by (simp add: api_host_def)
    with Suc show "grown s s'" by (rule perform_all_grown)
  qed
qed


text \<open>Under a steady host a write returns, unless the setter of the prototype raises.\<close>

lemma notify_from_returns:
  assumes st: "steady h"
  shows "\<exists>st'. notify_from h k i st = Some st' \<and> subscribers st' = subscribers st"
proof (cases "subscribers st k")
  case None
  then show ?thesis by (simp add: notify_from_none)
next
  case (Some entries)
  have "subscribers s k = Some entries \<Longrightarrow> length entries - i = n \<Longrightarrow>
      \<exists>s'. notify_from h k i s = Some s' \<and> subscribers s' = subscribers s" for n s i
  proof (induction n arbitrary: i s)
    case 0
    then show ?case by (simp add: notify_from_end)
  next
    case (Suc n)
    then have lt: "i < length entries" and n: "length entries - Suc i = n" by simp_all
    show ?case
    proof (cases "entries ! i")
      case None
      from Suc.IH [OF Suc.prems(1) n] notify_from_hole [OF Suc.prems(1) lt None]
      show ?thesis by simp
    next
      case (Some cb)
      from st obtain s1 where s1: "invoke h cb s = Some s1" "subscribers s1 = subscribers s"
        unfolding steady_def invoke_def
        by (metis ReactiveState.select_convs(2) ReactiveState.surjective ReactiveState.update_convs(5))
      then have "subscribers s1 k = Some entries" using Suc.prems(1) by simp
      from Suc.IH [OF this n] obtain s' where
        "notify_from h k (Suc i) s1 = Some s'" "subscribers s' = subscribers s1"
        by blast
      with s1 notify_from_call [OF Suc.prems(1) lt Some, of h] show ?thesis by simp
    qed
  qed
  with Some show ?thesis by blast
qed

lemma check_from_returns:
  assumes st: "steady h"
  shows "\<exists>st'. check_from h k i n s = Some st'"
proof (induction n arbitrary: i s)
  case 0
  show ?case by simp
next
  case (Suc n)
  show ?case
  proof (cases "i < length (expressions s) \<and> k \<in> set (variables (expressions s ! i))")
    case True
    from st obtain s1 where "invoke h (callback (expressions s ! i)) s = Some s1"
      unfolding steady_def invoke_def by blast
    with True Suc.IH [of "Suc i" s1] show ?thesis by auto
  next
    case False
    with Suc.IH [of "Suc i" s] show ?thesis by auto
  qed
qed

lemma proxy_set_returns:
  assumes st: "steady h" and o: "\<not> is_accessor (state s) k"
  shows "\<exists>s'. proxy_set h k v s = Some s'"
proof (cases "strict_eq (get_prop (state s) k) v")
  case True
  then show ?thesis by (simp add: proxy_set_same)
next
  case False
  let ?s = "s\<lparr>state := (state s)\<lparr>own := (own (state s))(k \<mapsto> v)\<rparr>\<rparr>"
  from notify_from_returns [OF st, of k 0 ?s] obtain s1 where
    s1: "notify_from h k 0 ?s = Some s1"
    by blast
  from check_from_returns [OF st, of k 0 "length (expressions s1)" s1] obtain s2 where
    "check_from h k 0 (length (expressions s1)) s1 = Some s2"
    by blast
  with s1 False o show ?thesis
    by (simp add: proxy_set_def put_prop_ordinary notify_def checkExpression_def)
qed

lemma quiet_host_steady: "steady quiet_host"
  by (simp add: steady_def quiet_host_def)

section \<open>Scopes (createLocalProxy)\<close>

text \<open>
  \<^verbatim>\<open>createLocalProxy(localState, globalState, globalManager)\<close> wraps the object
  \<^verbatim>\<open>{...localState, __globalState: {...globalState}, __globalManager: globalManager}\<close>
  in a proxy. \<open>target\<close> is that object. Its own properties are the own properties of
  the local state, then the two back-references, which replace a local binding of the
  same name; being written as a literal, it inherits the properties of
  \<^verbatim>\<open>Object.prototype\<close>. The back-references are objects; \<open>snapshot_ref\<close> and
  \<open>manager_ref\<close> are their identities, and \<open>globalSnapshot\<close> is the copy
  \<^verbatim>\<open>{...globalState}\<close>, another literal: the own properties of the state object of the
  store behind \<^verbatim>\<open>globalState\<close> when the scope is made.

  The traps close over \<^verbatim>\<open>globalState\<close>, the live proxy of the parent store, so they
  take the parent store as it is at the time of the access, and a write returns it.
\<close>

record Scope =
  target :: jsobject
  globalSnapshot :: jsobject
  snapshot_ref :: nat
  manager_ref :: nat

definition createLocalProxy :: "jsobject \<Rightarrow> ReactiveState \<Rightarrow> nat \<Rightarrow> nat \<Rightarrow> Scope" where
  "createLocalProxy localState globalState sref mref =
     \<lparr>target = object_literal
                 ((own localState)(''__globalState'' \<mapsto> JObj sref, ''__globalManager'' \<mapsto> JObj mref)),
      globalSnapshot = object_literal (own (state globalState)),
      snapshot_ref = sref,
      manager_ref = mref\<rparr>"

text \<open>The \<^verbatim>\<open>get\<close> trap; falling off its end returns \<^verbatim>\<open>undefined\<close>.\<close>

definition scope_get :: "Scope \<Rightarrow> ReactiveState \<Rightarrow> key \<Rightarrow> jsval" where
  "scope_get sc globalState k =
     (if has_property (target sc) k then get_prop (target sc) k
      else if has_property (state globalState) k then proxy_get globalState k
      else JUndefined)"

text \<open>
  The \<^verbatim>\<open>set\<close> trap. Its first line returns true without writing when the scope object
  holds under the key a value of type \<^verbatim>\<open>"object"\<close> that is loosely equal to the new
  value. The result is the trap's return value, the scope and the parent store; it is
  \<open>None\<close> when the trap does not return (an assignment in it raises, or a callback of
  the parent store does not return).
\<close>

definition scope_set ::
  "Host \<Rightarrow> (nat \<Rightarrow> jsval \<Rightarrow> bool) \<Rightarrow> key \<Rightarrow> jsval \<Rightarrow> Scope \<Rightarrow> ReactiveState
     \<Rightarrow> (bool \<times> Scope \<times> ReactiveState) option" where
  "scope_set h conv k v sc globalState =
     (if typeof (get_prop (target sc) k) = ''object'' \<and> loose_eq_object conv (get_prop (target sc) k) v
      then Some (True, sc, globalState)
      else if has_property (target sc) k then
        map_option (\<lambda>obj. (True, sc\<lparr>target := obj\<rparr>, globalState))
          (put_prop (setPrototypeOf h) k v (target sc))
      else if has_property (state globalState) k then
        map_option (\<lambda>g. (True, sc, g)) (proxy_set h k v globalState)
      else Some (False, sc, globalState))"

text \<open>
  The assignment \<^verbatim>\<open>scope[key] = value\<close>, as the code that makes it sees it. When the
  trap returns false, an assignment in sloppy-mode code goes on as if nothing had
  happened, and an assignment in strict-mode code (a module, a class body, code under
  \<^verbatim>\<open>"use strict"\<close>) raises a TypeError.
\<close>

definition scope_assign ::
  "bool \<Rightarrow> Host \<Rightarrow> (nat \<Rightarrow> jsval \<Rightarrow> bool) \<Rightarrow> key \<Rightarrow> jsval \<Rightarrow> Scope \<Rightarrow> ReactiveState
     \<Rightarrow> (error + Scope \<times> ReactiveState) option" where
  "scope_assign strict h conv k v sc globalState =
     map_option (\<lambda>r. if fst r \<or> \<not> strict then Inr (snd r) else Inl TypeError)
       (scope_set h conv k v sc globalState)"

section \<open>The document tree, as far as a block touches it\<close>

text \<open>
  A node is its identity. A block works on the children of one node, \<^verbatim>\<open>parentNode\<close>,
  and on a document fragment it fills off the tree; both are lists of nodes in document
  order. The state of these operations is the pair of the fragment's children and the
  parent's children. A node of the block is a child of the parent, a child of the
  fragment, or detached.

  \<^item> \<^verbatim>\<open>fragment.appendChild(n)\<close> takes \<open>n\<close> from where it is and makes it the
    fragment's last child.
  \<^item> \<^verbatim>\<open>n.remove()\<close> takes \<open>n\<close> from where it is.
  \<^item> \<^verbatim>\<open>blockStart.nextSibling\<close> is the child after the marker, \<^verbatim>\<open>null\<close> when the
    marker is the last child or is not among the children.
  \<^item> \<^verbatim>\<open>parentNode.insertBefore(fragment, ref)\<close> moves the fragment's children in
    front of \<open>ref\<close>, to the end when \<open>ref\<close> is \<^verbatim>\<open>null\<close>, and leaves the
    fragment empty. The reference is always a child of the parent here.
\<close>

type_synonym node = nat

definition appendChild :: "node \<Rightarrow> node list \<times> node list \<Rightarrow> node list \<times> node list" where
  "appendChild n fc = (removeAll n (fst fc) @ [n], removeAll n (snd fc))"

definition remove_node :: "node \<Rightarrow> node list \<times> node list \<Rightarrow> node list \<times> node list" where
  "remove_node n fc = (removeAll n (fst fc), removeAll n (snd fc))"

fun nextSibling :: "node \<Rightarrow> node list \<Rightarrow> node option" where
  "nextSibling n [] = None"
| "nextSibling n [x] = None"
| "nextSibling n (x # y # ys) = (if x = n then Some y else nextSibling n (y # ys))"

fun insertBefore :: "node list \<Rightarrow> node option \<Rightarrow> node list \<Rightarrow> node list" where
  "insertBefore new None ch = ch @ new"
| "insertBefore new (Some r) ch = takeWhile (\<lambda>x. x \<noteq> r) ch @ new @ dropWhile (\<lambda>x. x \<noteq> r) ch"

lemma fold_appendChild:
  "distinct ns \<Longrightarrow>
   fold appendChild ns (f, c) =
     (filter (\<lambda>x. x \<notin> set ns) f @ ns, filter (\<lambda>x. x \<notin> set ns) c)"
proof (induction ns arbitrary: f c)
  case Nil
  then show ?case by simp
next
  case (Cons n ns)
  have "fold appendChild (n # ns) (f, c) = fold appendChild ns (removeAll n f @ [n], removeAll n c)"
    by (simp add: appendChild_def)
  also have "\<dots> = (filter (\<lambda>x. x \<notin> set ns) (removeAll n f @ [n]) @ ns,
                   filter (\<lambda>x. x \<notin> set ns) (removeAll n c))"
    using Cons by simp
  also have "\<dots> = (filter (\<lambda>x. x \<notin> set (n # ns)) f @ n # ns,
                   filter (\<lambda>x. x \<notin> set (n # ns)) c)"
    using Cons.prems by (auto simp: removeAll_filter_not_eq intro!: filter_cong)
  finally show ?case .
qed

lemma fold_remove_node:
  "fold remove_node ns (f, c) =
     (filter (\<lambda>x. x \<notin> set ns) f, filter (\<lambda>x. x \<notin> set ns) c)"
proof (induction ns arbitrary: f c)
  case Nil
  then show ?case by simp
next
  case (Cons n ns)
  have "fold remove_node (n # ns) (f, c) = fold remove_node ns (removeAll n f, removeAll n c)"
    by (simp add: remove_node_def)
  also have "\<dots> = (filter (\<lambda>x. x \<notin> set ns) (removeAll n f),
                   filter (\<lambda>x. x \<notin> set ns) (removeAll n c))"
    by (rule Cons)
  also have "\<dots> = (filter (\<lambda>x. x \<notin> set (n # ns)) f, filter (\<lambda>x. x \<notin> set (n # ns)) c)"
    by (auto simp: removeAll_filter_not_eq intro!: filter_cong)
  finally show ?case .
qed

lemma insertBefore_nextSibling:
  "distinct ch \<Longrightarrow> bs \<in> set ch \<Longrightarrow>
   insertBefore new (nextSibling bs ch) ch =
     takeWhile (\<lambda>x. x \<noteq> bs) ch @ bs # new @ tl (dropWhile (\<lambda>x. x \<noteq> bs) ch)"
proof (induction bs ch rule: nextSibling.induct)
  case (1 n)
  then show ?case by simp
next
  case (2 n x)
  then show ?case by simp
next
  case (3 n x y ys)
  show ?case
  proof (cases "x = n")
    case True
    with 3 show ?thesis by auto
  next
    case False
    with 3 have ih: "insertBefore new (nextSibling n (y # ys)) (y # ys) =
        takeWhile (\<lambda>x. x \<noteq> n) (y # ys) @ n # new @ tl (dropWhile (\<lambda>x. x \<noteq> n) (y # ys))"
      by simp
    have nx: "nextSibling n (x # y # ys) = nextSibling n (y # ys)"
      using False by simp
    show ?thesis
    proof (cases "nextSibling n (y # ys)")
      case None
      with ih nx False show ?thesis by simp
    next
      case (Some r)
      have "r \<noteq> x"
      proof
        assume "r = x"
        have "r \<in> set (y # ys)"
          using Some by (induction n "y # ys" arbitrary: y ys rule: nextSibling.induct)
            (auto split: if_splits)
        with \<open>r = x\<close> 3(2) show False by auto
      qed
      with ih nx Some False show ?thesis by simp
    qed
  qed
qed

lemma split_at_marker:
  "bs \<in> set xs \<Longrightarrow>
   takeWhile (\<lambda>x. x \<noteq> bs) xs @ bs # tl (dropWhile (\<lambda>x. x \<noteq> bs) xs) = xs"
  by (induction xs) auto

section \<open>Conditional blocks (the update closure of parseIfStatements)\<close>

text \<open>
  The closure owns the two branches the extractor cut out of the sibling list, the start
  marker, the memo \<^verbatim>\<open>lastEval\<close> (initially \<^verbatim>\<open>undefined\<close>) and one fragment. The
  guard is evaluated by \<^verbatim>\<open>evaluateExpression\<close>, which compiles the expression text;
  its result \<open>evaluation\<close> is the argument of the update here.

  \<^verbatim>\<open>elseNodes.length && elseNodes.forEach(...)\<close> is the loop over \<open>elseNodes\<close>: over
  the empty list it does nothing either way.
\<close>

record IfBlock =
  ifNodes :: "node list"
  elseNodes :: "node list"
  blockStart :: node
  lastEval :: jsval
  tempFragment :: "node list"

definition if_update :: "jsval \<Rightarrow> IfBlock \<times> node list \<Rightarrow> IfBlock \<times> node list" where
  "if_update evaluation bc =
     (let blk = fst bc; ch = snd bc in
      if strict_eq (lastEval blk) evaluation then (blk, ch)
      else
        let fc = (if truthy evaluation
                  then fold remove_node (elseNodes blk)
                         (fold appendChild (ifNodes blk) (tempFragment blk, ch))
                  else fold remove_node (ifNodes blk)
                         (fold appendChild (elseNodes blk) (tempFragment blk, ch)));
            ch' = insertBefore (fst fc) (nextSibling (blockStart blk) (snd fc)) (snd fc)
        in (blk\<lparr>lastEval := evaluation, tempFragment := []\<rparr>, ch'))"

text \<open>
  Binding a block: the memo starts as \<^verbatim>\<open>undefined\<close>, the fragment is new, and the
  update runs once with the guard's value at that time.
\<close>

definition if_bind :: "node list \<Rightarrow> node list \<Rightarrow> node \<Rightarrow> jsval \<Rightarrow> node list \<Rightarrow> IfBlock \<times> node list" where
  "if_bind ifs elses start evaluation ch =
     if_update evaluation
       (\<lparr>ifNodes = ifs, elseNodes = elses, blockStart = start, lastEval = JUndefined,
         tempFragment = []\<rparr>, ch)"

text \<open>
  A block as the extractor leaves it in a sibling list: the children are distinct nodes,
  the start marker is one of them, the branches are two disjoint runs of distinct nodes
  that do not hold the marker, and the fragment is empty between updates.
\<close>

definition block_in_tree :: "IfBlock \<Rightarrow> node list \<Rightarrow> bool" where
  "block_in_tree blk ch =
     (distinct ch \<and> blockStart blk \<in> set ch
      \<and> blockStart blk \<notin> set (ifNodes blk) \<and> blockStart blk \<notin> set (elseNodes blk)
      \<and> distinct (ifNodes blk) \<and> distinct (elseNodes blk)
      \<and> set (ifNodes blk) \<inter> set (elseNodes blk) = {}
      \<and> tempFragment blk = [])"

definition outside :: "IfBlock \<Rightarrow> node list \<Rightarrow> node list" where
  "outside blk ch = filter (\<lambda>n. n \<notin> set (ifNodes blk) \<and> n \<notin> set (elseNodes blk)) ch"

definition after_marker :: "node \<Rightarrow> node list \<Rightarrow> node list \<Rightarrow> node list" where
  "after_marker bs new ch =
     takeWhile (\<lambda>x. x \<noteq> bs) ch @ bs # new @ tl (dropWhile (\<lambda>x. x \<noteq> bs) ch)"

lemma if_update_same: "strict_eq (lastEval blk) ev \<Longrightarrow> if_update ev (blk, ch) = (blk, ch)"
  by (simp add: if_update_def)

lemma outside_marker:
  "block_in_tree blk ch \<Longrightarrow> distinct (outside blk ch) \<and> blockStart blk \<in> set (outside blk ch)"
  by (simp add: block_in_tree_def outside_def)

lemma if_update_truthy:
  assumes wf: "block_in_tree blk ch" and ne: "\<not> strict_eq (lastEval blk) ev" and t: "truthy ev"
  shows "if_update ev (blk, ch) =
           (blk\<lparr>lastEval := ev, tempFragment := []\<rparr>,
            after_marker (blockStart blk) (ifNodes blk) (outside blk ch))"
proof -
  have d: "distinct (ifNodes blk)" and e: "tempFragment blk = []"
    and dj: "set (ifNodes blk) \<inter> set (elseNodes blk) = {}"
    using wf by (simp_all add: block_in_tree_def)
  have keep: "filter (\<lambda>x. x \<notin> set (elseNodes blk)) (ifNodes blk) = ifNodes blk"
    using dj by (auto simp: filter_id_conv)
  have fc: "fold remove_node (elseNodes blk) (fold appendChild (ifNodes blk) (tempFragment blk, ch))
        = (ifNodes blk, outside blk ch)"
    by (simp add: fold_appendChild [OF d] fold_remove_node e keep outside_def)
  show ?thesis
    using ne t outside_marker [OF wf]
    by (simp add: if_update_def fc insertBefore_nextSibling after_marker_def)
qed

lemma if_update_falsy:
  assumes wf: "block_in_tree blk ch" and ne: "\<not> strict_eq (lastEval blk) ev" and t: "\<not> truthy ev"
  shows "if_update ev (blk, ch) =
           (blk\<lparr>lastEval := ev, tempFragment := []\<rparr>,
            after_marker (blockStart blk) (elseNodes blk) (outside blk ch))"
proof -
  have d: "distinct (elseNodes blk)" and e: "tempFragment blk = []"
    and dj: "set (ifNodes blk) \<inter> set (elseNodes blk) = {}"
    using wf by (simp_all add: block_in_tree_def)
  have keep: "filter (\<lambda>x. x \<notin> set (ifNodes blk)) (elseNodes blk) = elseNodes blk"
    using dj by (auto simp: filter_id_conv)
  have fc: "fold remove_node (ifNodes blk) (fold appendChild (elseNodes blk) (tempFragment blk, ch))
        = (elseNodes blk, outside blk ch)"
    by (auto simp: fold_appendChild [OF d] fold_remove_node e keep outside_def intro!: filter_cong)
  show ?thesis
    using ne t outside_marker [OF wf]
    by (simp add: if_update_def fc insertBefore_nextSibling after_marker_def)
qed

lemma outside_after_marker:
  assumes "bs \<in> set (outside blk ch)" and "set new \<subseteq> set (ifNodes blk) \<union> set (elseNodes blk)"
  shows "outside blk (after_marker bs new (outside blk ch)) = outside blk ch"
proof -
  let ?p = "\<lambda>n. n \<notin> set (ifNodes blk) \<and> n \<notin> set (elseNodes blk)"
  let ?r = "outside blk ch"
  have new: "filter ?p new = []"
    using assms(2) by (auto simp: filter_empty_conv)
  have rr: "filter ?p ?r = ?r"
    by (simp add: outside_def)
  have "filter ?p (after_marker bs new ?r) =
        filter ?p (takeWhile (\<lambda>x. x \<noteq> bs) ?r @ bs # tl (dropWhile (\<lambda>x. x \<noteq> bs) ?r))"
    by (simp add: after_marker_def new)
  also have "\<dots> = filter ?p ?r"
    by (simp only: split_at_marker [OF assms(1)])
  finally show ?thesis
    using rr by (simp add: outside_def)
qed

section \<open>Keyed lists (the update closure of parseEachBlocks)\<close>

text \<open>
  The value \<^verbatim>\<open>getValueFromExpression(variables, arrayName).value\<close>: an array with its
  elements, or any other value. A value that is not an array has no \<^verbatim>\<open>forEach\<close>
  method here (plain objects, functions and primitives have none).
\<close>

datatype source_value = Items "jsval list" | Other jsval

text \<open>
  What \<^verbatim>\<open>console.error\<close> is called with:
  \<^verbatim>\<open>`${arrayName}: is not an array at ${expression}`\<close>,
  \<^verbatim>\<open>`Error: Expected closing state for each block: ${expression}`\<close> and
  \<^verbatim>\<open>`Error: undefined reading arguments ${currentArg}.`\<close>.
\<close>

datatype log_entry = NotAnArray string string | ExpectedClosing string | UndefinedArgument string

text \<open>
  A record of \<^verbatim>\<open>state.domNodes\<close>: the rendered node, \<^verbatim>\<open>data.item\<close>,
  \<^verbatim>\<open>data.index\<close>, \<^verbatim>\<open>data._dom_master_key\<close>, and the pair of \<^verbatim>\<open>stateProxy\<close> and
  \<^verbatim>\<open>localManager\<close>, kept as one component of any type.
\<close>

record 's ItemRecord =
  rec_node :: node
  rec_item :: jsval
  rec_index :: nat
  rec_key :: jsval
  rec_scope :: 's

text \<open>
  What the closure closes over. \<open>uniid n\<close> is the string the \<open>n\<close>-th call of
  \<^verbatim>\<open>uniid()\<close> returns (it is drawn from \<^verbatim>\<open>Math.random\<close>).
  \<^item> \<open>write_index sc i\<close> stands for the two writes of a new index,
    \<^verbatim>\<open>stateProxy[indexName] = index\<close> and \<^verbatim>\<open>localManager[indexName] = index\<close>, with
    the callbacks of the item's store they run.
  \<^item> \<open>structuredClone\<close> is the host's function of that name. It raises a
    DataCloneError for a value it cannot copy, such as an object that holds a function;
    the copy of an object is a new object.
  \<^item> \<open>write_item sc v\<close> stands for the writes of the new item into the scope and the
    item's store (lines 532 to 540), with the callbacks they run: the updates of the
    text, the attributes and the nested blocks bound to the item.
  \<^item> \<open>create\<close> stands for building the local scope of a new item and parsing the cloned
    template (lines 556 to 607).

  All of them but \<open>structuredClone\<close> work on the scope of one item, can raise, and
  leave the parent's children alone.
\<close>

record 's EachEnv =
  arrayName :: string
  each_expression :: string
  each_blockStart :: node
  uniid :: "nat \<Rightarrow> string"
  write_index :: "'s \<Rightarrow> nat \<Rightarrow> error + 's"
  structuredClone :: "jsval \<Rightarrow> error + jsval"
  write_item :: "'s \<Rightarrow> jsval \<Rightarrow> error + 's"
  create :: "jsval \<Rightarrow> nat \<Rightarrow> node \<Rightarrow> error + 's"

text \<open>
  Lines 522 to 540, for a record \<open>r\<close> of the previous render that is reused for the
  item \<open>item\<close> at the index \<open>i\<close>: the index is written when it has changed
  (\<^verbatim>\<open>data.index != index\<close>), the new item is cloned when the old item's type is
  \<^verbatim>\<open>"object"\<close>, and the item or its clone is written.
\<close>

definition refresh :: "'s EachEnv \<Rightarrow> 's ItemRecord \<Rightarrow> jsval \<Rightarrow> nat \<Rightarrow> error + 's" where
  "refresh env r item i =
     (case (if rec_index r \<noteq> i then write_index env (rec_scope r) i else Inr (rec_scope r)) of
        Inl e \<Rightarrow> Inl e
      | Inr sc \<Rightarrow>
          (case (if typeof (rec_item r) = ''object'' then structuredClone env item else Inr item) of
             Inl e \<Rightarrow> Inl e
           | Inr newData \<Rightarrow> write_item env sc newData))"

text \<open>
  The state the closure works on: \<^verbatim>\<open>state.domNodes\<close>, the children of
  \<^verbatim>\<open>parentNode\<close>, the identity the next \<^verbatim>\<open>cloneNode\<close> returns, the hidden
  \<^verbatim>\<open>_dom_master_key\<close> of every object that has one (by object identity), and the
  number of \<^verbatim>\<open>uniid()\<close> calls made so far.
\<close>

record 's EachState =
  domNodes :: "'s ItemRecord list"
  children :: "node list"
  next_node :: node
  master_keys :: "nat \<rightharpoonup> string"
  minted :: nat

text \<open>
  The first loop over the items: an item of type \<^verbatim>\<open>"object"\<close> whose
  \<^verbatim>\<open>_dom_master_key\<close> is missing or falsy gets one by \<^verbatim>\<open>Object.defineProperty\<close>
  (not writable, not configurable). Reading the property of \<^verbatim>\<open>null\<close> raises, and so
  does defining the property again with another value. Objects are extensible.
\<close>

fun mint_key :: "(nat \<Rightarrow> string) \<Rightarrow> jsval \<Rightarrow> (nat \<rightharpoonup> string) \<times> nat \<Rightarrow> error + (nat \<rightharpoonup> string) \<times> nat" where
  "mint_key u JNull (mk, n) = Inl TypeError"
| "mint_key u (JObj a) (mk, n) =
     (case mk a of
        None \<Rightarrow> Inr (mk(a \<mapsto> u n), Suc n)
      | Some k \<Rightarrow>
          if k \<noteq> [] then Inr (mk, n)
          else if u n = [] then Inr (mk, Suc n)
          else Inl TypeError)"
| "mint_key u item (mk, n) = Inr (mk, n)"

fun mint_keys :: "(nat \<Rightarrow> string) \<Rightarrow> jsval list \<Rightarrow> (nat \<rightharpoonup> string) \<times> nat \<Rightarrow> error + (nat \<rightharpoonup> string) \<times> nat" where
  "mint_keys u [] mn = Inr mn"
| "mint_keys u (item # items) mn =
     (case mint_key u item mn of
        Inl e \<Rightarrow> Inl e
      | Inr mn' \<Rightarrow> mint_keys u items mn')"

text \<open>
  \<^verbatim>\<open>typeof item === "object" ? item._dom_master_key : item\<close>. After the first loop
  no item is \<^verbatim>\<open>null\<close> and every object has its key.
\<close>

fun key_of :: "(nat \<rightharpoonup> string) \<Rightarrow> jsval \<Rightarrow> jsval" where
  "key_of mk (JObj a) = (case mk a of None \<Rightarrow> JUndefined | Some k \<Rightarrow> JStr k)"
| "key_of mk JNull = JUndefined"
| "key_of mk item = item"

text \<open>
  A \<^verbatim>\<open>Map\<close> as the list of its entries in insertion order: setting a key it has
  replaces the value in place. Its key equality makes not-a-number equal to itself, as
  the equality of \<^typ>\<open>jsval\<close> does.
\<close>

fun map_put :: "'k \<Rightarrow> 'v \<Rightarrow> ('k \<times> 'v) list \<Rightarrow> ('k \<times> 'v) list" where
  "map_put k v [] = [(k, v)]"
| "map_put k v (e # m) = (if fst e = k then (k, v) # m else e # map_put k v m)"

definition new_Map :: "('k \<times> 'v) list \<Rightarrow> ('k \<times> 'v) list" where
  "new_Map entries = fold (\<lambda>e m. map_put (fst e) (snd e) m) entries []"

definition map_delete :: "'k \<Rightarrow> ('k \<times> 'v) list \<Rightarrow> ('k \<times> 'v) list" where
  "map_delete k m = filter (\<lambda>e. fst e \<noteq> k) m"

text \<open>
  The second loop, over the items with their indexes. \<open>differ\<close> is
  \<^verbatim>\<open>newItems.length !== state.domNodes.length\<close>. The test
  \<^verbatim>\<open>oldNodeMap.size && oldNodeMap.has(key)\<close> is \<^verbatim>\<open>oldNodeMap.has(key)\<close>.
\<close>

record 's Pass =
  oldNodeMap :: "(jsval \<times> 's ItemRecord) list"
  newDomNodes :: "'s ItemRecord list"
  pass_next :: node

fun each_items ::
  "'s EachEnv \<Rightarrow> (nat \<rightharpoonup> string) \<Rightarrow> bool \<Rightarrow> nat \<Rightarrow> jsval list \<Rightarrow> 's Pass \<Rightarrow> error + 's Pass" where
  "each_items env mk differ i [] p = Inr p"
| "each_items env mk differ i (item # rest) p =
     (let k = key_of mk item in
      case map_of (oldNodeMap p) k of
        Some r \<Rightarrow>
          (case refresh env r item i of
             Inl e \<Rightarrow> Inl e
           | Inr sc \<Rightarrow>
               each_items env mk differ (Suc i) rest
                 (p\<lparr>newDomNodes := newDomNodes p @
                      [\<lparr>rec_node = rec_node r, rec_item = item, rec_index = i, rec_key = k,
                        rec_scope = sc\<rparr>],
                    oldNodeMap := map_delete k (oldNodeMap p)\<rparr>))
      | None \<Rightarrow>
          if differ then
            (case create env item i (pass_next p) of
               Inl e \<Rightarrow> Inl e
             | Inr sc \<Rightarrow>
                 each_items env mk differ (Suc i) rest
                   (p\<lparr>newDomNodes := newDomNodes p @
                        [\<lparr>rec_node = pass_next p, rec_item = item, rec_index = i, rec_key = k,
                          rec_scope = sc\<rparr>],
                      pass_next := Suc (pass_next p)\<rparr>))
          else each_items env mk differ (Suc i) rest p)"

text \<open>
  \<^verbatim>\<open>parentNode.removeChild(node)\<close> raises when the node is not a child of the parent.
\<close>

definition removeChild :: "node \<Rightarrow> node list \<Rightarrow> error + node list" where
  "removeChild n ch = (if n \<in> set ch then Inr (removeAll n ch) else Inl NotFoundError)"

fun remove_old :: "node list \<Rightarrow> node list \<Rightarrow> error + node list" where
  "remove_old [] ch = Inr ch"
| "remove_old (n # ns) ch =
     (case removeChild n ch of
        Inl e \<Rightarrow> Inl e
      | Inr ch' \<Rightarrow> remove_old ns ch')"

text \<open>
  The update closure. Its result is what it logged and either the error it raised or the
  state it left. \<^verbatim>\<open>value || []\<close> replaces a falsy value by the empty array; the error
  is logged when the value is not an array, and the closure goes on to call
  \<^verbatim>\<open>newItems.forEach\<close> all the same.
\<close>

definition each_update ::
  "'s EachEnv \<Rightarrow> source_value \<Rightarrow> 's EachState \<Rightarrow> log_entry list \<times> (error + 's EachState)" where
  "each_update env v st =
     (case (case v of Items xs \<Rightarrow> Items xs
                    | Other x \<Rightarrow> if truthy x then Other x else Items []) of
        Other x \<Rightarrow> ([NotAnArray (arrayName env) (each_expression env)], Inl TypeError)
      | Items newItems \<Rightarrow>
          ([],
           case mint_keys (uniid env) newItems (master_keys st, minted st) of
             Inl e \<Rightarrow> Inl e
           | Inr mn \<Rightarrow>
               (case each_items env (fst mn) (length newItems \<noteq> length (domNodes st)) 0 newItems
                       \<lparr>oldNodeMap = new_Map (map (\<lambda>r. (rec_key r, r)) (domNodes st)),
                        newDomNodes = [], pass_next = next_node st\<rparr> of
                  Inl e \<Rightarrow> Inl e
                | Inr p \<Rightarrow>
                    (case remove_old (map (\<lambda>e. rec_node (snd e)) (oldNodeMap p)) (children st) of
                       Inl e \<Rightarrow> Inl e
                     | Inr ch \<Rightarrow>
                         let fc = fold appendChild (map rec_node (newDomNodes p)) ([], ch);
                             ch' = (if fst fc \<noteq> []
                                    then insertBefore (fst fc)
                                           (nextSibling (each_blockStart env) (snd fc)) (snd fc)
                                    else snd fc)
                         in Inr \<lparr>domNodes = newDomNodes p, children = ch',
                                 next_node = pass_next p, master_keys = fst mn,
                                 minted = snd mn\<rparr>))))"




subsection \<open>Facts about the loops\<close>

lemma set_map_put: "set (map_put k v m) \<subseteq> insert (k, v) (set m)"
  by (induction m) auto

lemma set_new_Map_aux: "set (fold (\<lambda>e m. map_put (fst e) (snd e) m) es m0) \<subseteq> set es \<union> set m0"
proof (induction es arbitrary: m0)
  case Nil
  then show ?case by simp
next
  case (Cons e es)
  have "set (fold (\<lambda>e m. map_put (fst e) (snd e) m) es (map_put (fst e) (snd e) m0))
          \<subseteq> set es \<union> set (map_put (fst e) (snd e) m0)"
    by (rule Cons)
  also have "\<dots> \<subseteq> set es \<union> insert e (set m0)"
    using set_map_put [of "fst e" "snd e" m0] by auto
  finally show ?case by auto
qed

lemma set_new_Map: "set (new_Map es) \<subseteq> set es"
  using set_new_Map_aux [of es "[]"] by (simp add: new_Map_def)

lemma each_items_equal_lengths:
  "each_items env mk False i items p = Inr p' \<Longrightarrow>
   pass_next p' = pass_next p
   \<and> set (map rec_node (newDomNodes p'))
       \<subseteq> set (map rec_node (newDomNodes p)) \<union> set (map (\<lambda>e. rec_node (snd e)) (oldNodeMap p))"
proof (induction items arbitrary: i p)
  case Nil
  then show ?case by auto
next
  case (Cons item rest)
  show ?case
  proof (cases "map_of (oldNodeMap p) (key_of mk item)")
    case None
    with Cons.prems have "each_items env mk False (Suc i) rest p = Inr p'" by simp
    then show ?thesis by (rule Cons.IH)
  next
    case (Some r)
    then have mem: "(key_of mk item, r) \<in> set (oldNodeMap p)" by (rule map_of_SomeD)
    from Cons.prems Some obtain sc where sc: "refresh env r item i = Inr sc"
      by (cases "refresh env r item i") auto
    let ?p = "p\<lparr>newDomNodes := newDomNodes p @
                      [\<lparr>rec_node = rec_node r, rec_item = item, rec_index = i, rec_key = key_of mk item,
                        rec_scope = sc\<rparr>],
                    oldNodeMap := map_delete (key_of mk item) (oldNodeMap p)\<rparr>"
    from Cons.prems Some sc have "each_items env mk False (Suc i) rest ?p = Inr p'"
      by (simp add: Let_def)
    from Cons.IH [OF this] have ih1: "pass_next p' = pass_next p"
      and ih2: "set (map rec_node (newDomNodes p'))
         \<subseteq> set (map rec_node (newDomNodes ?p)) \<union> set (map (\<lambda>e. rec_node (snd e)) (oldNodeMap ?p))"
      by simp_all
    have s1: "set (map rec_node (newDomNodes ?p)) = insert (rec_node r) (set (map rec_node (newDomNodes p)))"
      by simp
    have s2: "set (map (\<lambda>e. rec_node (snd e)) (oldNodeMap ?p))
         \<subseteq> set (map (\<lambda>e. rec_node (snd e)) (oldNodeMap p))"
      by (auto simp: map_delete_def)
    have s3: "rec_node r \<in> set (map (\<lambda>e. rec_node (snd e)) (oldNodeMap p))"
      using mem by force
    have "set (map rec_node (newDomNodes p'))
         \<subseteq> insert (rec_node r) (set (map rec_node (newDomNodes p)))
             \<union> set (map (\<lambda>e. rec_node (snd e)) (oldNodeMap p))"
      using ih2 s2 unfolding s1 by blast
    then have "set (map rec_node (newDomNodes p'))
         \<subseteq> set (map rec_node (newDomNodes p)) \<union> set (map (\<lambda>e. rec_node (snd e)) (oldNodeMap p))"
      using s3 by blast
    with ih1 show ?thesis by blast
  qed
qed

lemma each_items_differ_lengths:
  "each_items env mk True i items p = Inr p' \<Longrightarrow>
   map rec_item (newDomNodes p') = map rec_item (newDomNodes p) @ items"
proof (induction items arbitrary: i p)
  case Nil
  then show ?case by auto
next
  case (Cons item rest)
  show ?case
  proof (cases "map_of (oldNodeMap p) (key_of mk item)")
    case None
    from Cons.prems None obtain sc where sc: "create env item i (pass_next p) = Inr sc"
      by (cases "create env item i (pass_next p)") auto
    let ?p = "p\<lparr>newDomNodes := newDomNodes p @
                        [\<lparr>rec_node = pass_next p, rec_item = item, rec_index = i, rec_key = key_of mk item,
                          rec_scope = sc\<rparr>],
                      pass_next := Suc (pass_next p)\<rparr>"
    from Cons.prems None sc have "each_items env mk True (Suc i) rest ?p = Inr p'"
      by (simp add: Let_def)
    from Cons.IH [OF this] show ?thesis
      by simp
  next
    case (Some r)
    from Cons.prems Some obtain sc where sc: "refresh env r item i = Inr sc"
      by (cases "refresh env r item i") auto
    let ?p = "p\<lparr>newDomNodes := newDomNodes p @
                      [\<lparr>rec_node = rec_node r, rec_item = item, rec_index = i, rec_key = key_of mk item,
                        rec_scope = sc\<rparr>],
                    oldNodeMap := map_delete (key_of mk item) (oldNodeMap p)\<rparr>"
    from Cons.prems Some sc have "each_items env mk True (Suc i) rest ?p = Inr p'"
      by (simp add: Let_def)
    from Cons.IH [OF this] show ?thesis
      by simp
  qed
qed


lemma each_update_returns:
  assumes "each_update env (Items items) st = (lg, Inr st')"
  shows "\<exists>mk p. each_items env mk (length items \<noteq> length (domNodes st)) 0 items
                  \<lparr>oldNodeMap = new_Map (map (\<lambda>r. (rec_key r, r)) (domNodes st)),
                   newDomNodes = [], pass_next = next_node st\<rparr> = Inr p
               \<and> domNodes st' = newDomNodes p \<and> next_node st' = pass_next p"
proof -
  from assms obtain mn where m: "mint_keys (uniid env) items (master_keys st, minted st) = Inr mn"
    by (cases "mint_keys (uniid env) items (master_keys st, minted st)")
       (auto simp: each_update_def)
  let ?r = "each_items env (fst mn) (length items \<noteq> length (domNodes st)) 0 items
                  \<lparr>oldNodeMap = new_Map (map (\<lambda>r. (rec_key r, r)) (domNodes st)),
                   newDomNodes = [], pass_next = next_node st\<rparr>"
  from assms m obtain p where p: "?r = Inr p"
    by (cases ?r) (auto simp: each_update_def)
  from assms m p have "domNodes st' = newDomNodes p \<and> next_node st' = pass_next p"
    by (auto simp: each_update_def Let_def split: sum.splits)
  with p show ?thesis
    by blast
qed












section \<open>Dependency registration\<close>

subsection \<open>The two regular expressions, as scanners\<close>

text \<open>
  A string is the list of its code units. \<^verbatim>\<open>template.match(braceRegex)\<close> with the
  global pattern \<^verbatim>\<open>\{\s*([^\{\}]+?)\s*\}\<close> returns the matches from left to right: an
  opening brace, at least one character that is no brace, a closing brace. The scanner
  keeps the text since the last opening brace; another opening brace starts over, a
  closing brace ends a match when the text is not empty. No match at all is \<^verbatim>\<open>null\<close>
  in the source and the empty list here.
\<close>

fun braceScan :: "string option \<Rightarrow> string \<Rightarrow> string list" where
  "braceScan cur [] = []"
| "braceScan cur (c # cs) =
     (if c = CHR ''{'' then braceScan (Some []) cs
      else if c = CHR ''}'' then
        (case cur of
           None \<Rightarrow> braceScan None cs
         | Some body \<Rightarrow>
             if body = [] then braceScan None cs
             else (CHR ''{'' # rev body @ [CHR ''}'']) # braceScan None cs)
      else braceScan (map_option ((#) c) cur) cs)"

definition matchBraces :: "string \<Rightarrow> string list" where
  "matchBraces template = braceScan None template"

text \<open>
  The pattern \<^verbatim>\<open>(['"])(?:(?!\1|\\).|\\.)*\1\<close> of a quoted substring: a quote, then
  characters other than that quote and the backslash, or a backslash and any character,
  then the same quote; the dot matches no line terminator. \<open>quotedEnd q cs\<close> is the
  text after the closing quote when \<open>cs\<close>, the text after an opening quote \<open>q\<close>,
  has one. The global \<^verbatim>\<open>replace\<close> removes every match, left to right; a quote with no
  closing quote stays and the search goes on after it.
\<close>

definition isLineTerminator :: "char \<Rightarrow> bool" where
  "isLineTerminator c = (c = CHR 0x0A \<or> c = CHR 0x0D)"

fun quotedEnd :: "char \<Rightarrow> string \<Rightarrow> string option" where
  "quotedEnd q [] = None"
| "quotedEnd q [c] = (if c = q then Some [] else None)"
| "quotedEnd q (c # d # cs) =
     (if c = q then Some (d # cs)
      else if c = CHR 0x5C then (if isLineTerminator d then None else quotedEnd q cs)
      else if isLineTerminator c then None
      else quotedEnd q (d # cs))"

lemma quotedEnd_shorter: "quotedEnd q cs = Some r \<Longrightarrow> length r < Suc (length cs)"
  by (induction q cs rule: quotedEnd.induct) (auto split: if_splits)

function removeQuoted :: "string \<Rightarrow> string" where
  "removeQuoted [] = []"
| "removeQuoted (c # cs) =
     (if c = CHR 0x22 \<or> c = CHR 0x27 then
        (case quotedEnd c cs of
           Some rest \<Rightarrow> removeQuoted rest
         | None \<Rightarrow> c # removeQuoted cs)
      else c # removeQuoted cs)"
  by pat_completeness auto
termination
  by (relation "measure length") (auto dest: quotedEnd_shorter)

text \<open>
  \<^verbatim>\<open>trim()\<close>, \<^verbatim>\<open>split(/[^a-zA-Z_$\.]+/)\<close> and \<^verbatim>\<open>filter(Boolean)\<close>. The split
  cuts at every run of characters that are no letter, underscore, dollar or dot; a run
  at the start or at the end leaves an empty piece there, which the filter drops. A
  digit is no token character.
\<close>

definition isWhiteSpace :: "char \<Rightarrow> bool" where
  "isWhiteSpace c = (c \<in> set [CHR 0x20, CHR 0x09, CHR 0x0A, CHR 0x0B, CHR 0x0C, CHR 0x0D, CHR 0xA0])"

definition trim :: "string \<Rightarrow> string" where
  "trim s = rev (dropWhile isWhiteSpace (rev (dropWhile isWhiteSpace s)))"

definition isTokenChar :: "char \<Rightarrow> bool" where
  "isTokenChar c = (c \<in> set ''abcdefghijklmnopqrstuvwxyzABCDEFGHIJKLMNOPQRSTUVWXYZ_$.'')"

fun splitRuns :: "bool \<Rightarrow> string \<Rightarrow> string \<Rightarrow> string list" where
  "splitRuns inRun piece [] = [rev piece]"
| "splitRuns inRun piece (c # cs) =
     (if isTokenChar c then splitRuns False (c # piece) cs
      else if inRun then splitRuns True piece cs
      else rev piece # splitRuns True [] cs)"

definition splitTokens :: "string \<Rightarrow> string list" where
  "splitTokens s = splitRuns False [] s"

text \<open>\<^verbatim>\<open>[...new Set(tokens)]\<close>: the first occurrence of every token, in order.\<close>

fun uniq :: "'a list \<Rightarrow> 'a list \<Rightarrow> 'a list" where
  "uniq seen [] = []"
| "uniq seen (x # xs) = (if x \<in> set seen then uniq seen xs else x # uniq (x # seen) xs)"

text \<open>
  The root of a token: what stands before its first dot (\<^verbatim>\<open>token.split(".")[0]\<close>),
  else before its first bracket.
\<close>

definition rootOf :: "string \<Rightarrow> string" where
  "rootOf token =
     (if CHR ''.'' \<in> set token then takeWhile (\<lambda>c. c \<noteq> CHR ''.'') token
      else if CHR ''['' \<in> set token then takeWhile (\<lambda>c. c \<noteq> CHR ''['') token
      else token)"

text \<open>
  An identifier of JavaScript may hold characters the split pattern does not have: a
  digit, a character beyond ASCII, the backslash of an escape. The split cuts such an
  identifier in two, and it takes the letters of a number such as \<^verbatim>\<open>1e5\<close> for a
  token. In an expression with \<open>plain_paths\<close> this does not happen: outside quoted
  substrings none of these characters stands next to a letter, an underscore, a dollar
  or a dot, so every token is a whole identifier path and every number is a run of
  digits.
\<close>

definition isOtherIdentifierChar :: "char \<Rightarrow> bool" where
  "isOtherIdentifierChar c = (c \<in> set ''0123456789'' \<or> c = CHR 0x5C \<or> 127 < (of_char c :: nat))"

definition plain_paths :: "string \<Rightarrow> bool" where
  "plain_paths expression =
     (let s = removeQuoted expression
      in list_all (\<lambda>p. \<not> (isTokenChar (fst p) \<and> isOtherIdentifierChar (snd p))
                        \<and> \<not> (isOtherIdentifierChar (fst p) \<and> isTokenChar (snd p)))
           (zip s (tl s)))"

subsection \<open>getTokensFromExpression and registerDependencies\<close>

text \<open>
  \<^verbatim>\<open>variables\<close> is one of two things in the engine: the proxy of the store that is
  passed as \<^verbatim>\<open>stateManager\<close> (templates outside a loop), or the scope of a loop item,
  whose \<^verbatim>\<open>__globalManager\<close> is the store in \<open>globalManager\<close>. Neither proxy has a
  \<^verbatim>\<open>has\<close> trap, so \<^verbatim>\<open>token in variables\<close> asks the object behind the proxy,
  inherited properties included.

  The names \<^verbatim>\<open>__globalState\<close> and \<^verbatim>\<open>globalState\<close> are the engine's, and class
  ReactiveState has no member \<^verbatim>\<open>globalState\<close>. For a store whose state object does
  not have them (\<open>plain_state\<close>), \<^verbatim>\<open>variables.__globalState\<close> is \<^verbatim>\<open>undefined\<close>
  on the store's proxy and \<^verbatim>\<open>stateManager.globalState\<close> is \<^verbatim>\<open>undefined\<close>; on a
  scope that still binds it, \<^verbatim>\<open>variables.__globalState\<close> is the snapshot. The three
  tests below are written for such stores.
\<close>

datatype variables = StoreProxy | LocalProxy Scope


record Managers =
  stateManager :: ReactiveState
  globalManager :: ReactiveState

definition isInVars :: "variables \<Rightarrow> ReactiveState \<Rightarrow> key \<Rightarrow> bool" where
  "isInVars vars sm token =
     (case vars of
        StoreProxy \<Rightarrow> has_property (state sm) token
      | LocalProxy sc \<Rightarrow> has_property (target sc) token)"

text \<open>\<^verbatim>\<open>variables?.__globalState && token in variables.__globalState\<close>.\<close>

definition isIn_globalState :: "variables \<Rightarrow> key \<Rightarrow> bool" where
  "isIn_globalState vars token =
     (case vars of
        StoreProxy \<Rightarrow> False
      | LocalProxy sc \<Rightarrow>
          own (target sc) ''__globalState'' = Some (JObj (snapshot_ref sc))
          \<and> has_property (globalSnapshot sc) token)"


text \<open>\<^verbatim>\<open>stateManager?.globalState && token in stateManager.globalState.state\<close>.\<close>

definition isInGlobalStore :: "ReactiveState \<Rightarrow> key \<Rightarrow> bool" where
  "isInGlobalStore sm token = False"

definition getTokensFromExpression :: "string \<Rightarrow> variables \<Rightarrow> ReactiveState \<Rightarrow> key list" where
  "getTokensFromExpression expression vars sm =
     (let tokens = filter (\<lambda>t. t \<noteq> []) (splitTokens (trim (removeQuoted expression)))
      in filter (\<lambda>token. isInVars vars sm token \<or> isIn_globalState vars token
                          \<or> isInGlobalStore sm token)
           (map rootOf (uniq [] tokens)))"

text \<open>
  One round of the loop over the expressions. The file is a module, so its code is
  strict: the assignment to \<^verbatim>\<open>unsub\<close>, which is declared nowhere, raises a
  ReferenceError after its right-hand side has registered the expression. The result is
  the error raised, if any, and the two stores.
\<close>

definition register_expression ::
  "variables \<Rightarrow> callback \<Rightarrow> string \<Rightarrow> Managers \<Rightarrow> error option \<times> Managers" where
  "register_expression vars cb expression w =
     (let filteredTokens = getTokensFromExpression expression vars (stateManager w) in
      if length filteredTokens = 1 then
        (None,
         fold (\<lambda>token w'.
                 if isIn_globalState vars token
                 then w'\<lparr>globalManager := subscribe token cb (globalManager w')\<rparr>
                 else w'\<lparr>stateManager := subscribe token cb (stateManager w')\<rparr>)
           filteredTokens w)
      else if list_ex (isIn_globalState vars) filteredTokens
      then (Some ReferenceError,
            w\<lparr>globalManager := snd (addExpression filteredTokens cb (globalManager w))\<rparr>)
      else (None, w\<lparr>stateManager := snd (addExpression filteredTokens cb (stateManager w))\<rparr>))"

fun register_all ::
  "variables \<Rightarrow> callback \<Rightarrow> string list \<Rightarrow> Managers \<Rightarrow> error option \<times> Managers" where
  "register_all vars cb [] w = (None, w)"
| "register_all vars cb (e # es) w =
     (case register_expression vars cb e w of
        (Some err, w') \<Rightarrow> (Some err, w')
      | (None, w') \<Rightarrow> register_all vars cb es w')"

text \<open>
  \<^verbatim>\<open>registerDependencies(template, variables, callback, stateManager)\<close>. A template
  with no match makes \<^verbatim>\<open>expressions\<close> \<^verbatim>\<open>null\<close>, and \<^verbatim>\<open>null.forEach\<close> raises.
\<close>

definition registerDependencies ::
  "string \<Rightarrow> variables \<Rightarrow> callback \<Rightarrow> Managers \<Rightarrow> error option \<times> Managers" where
  "registerDependencies template vars cb w =
     (case matchBraces template of
        [] \<Rightarrow> (Some TypeError, w)
      | e # es \<Rightarrow> register_all vars cb (e # es) w)"

subsection \<open>Facts about the two kinds of subscription\<close>



section \<open>The head of a loop block (parseEachBlocks)\<close>

text \<open>
  Before it builds the update closure, \<^verbatim>\<open>parseEachBlocks\<close> looks at the siblings that
  follow the text node of the \<^verbatim>\<open>{for:each ...}\<close> marker: \<^verbatim>\<open>eachContent\<close> is
  \<^verbatim>\<open>node.nextElementSibling\<close>, and the closing marker is looked for in
  \<^verbatim>\<open>eachContent.nextSibling.nodeValue\<close>. Reading a property of \<^verbatim>\<open>null\<close> raises. The
  \<^verbatim>\<open>nodeValue\<close> of an element is \<^verbatim>\<open>null\<close>, which the test reads as the text
  \<^verbatim>\<open>null\<close>.
\<close>

datatype dom_node = TextNode string | ElementNode | CommentNode string

fun nodeValue :: "dom_node \<Rightarrow> string option" where
  "nodeValue (TextNode s) = Some s"
| "nodeValue ElementNode = None"
| "nodeValue (CommentNode s) = Some s"

fun contains :: "string \<Rightarrow> string \<Rightarrow> bool" where
  "contains pat [] = (pat = [])"
| "contains pat (c # cs) = (take (length pat) (c # cs) = pat \<or> contains pat cs)"

definition endEach_test :: "string option \<Rightarrow> bool" where
  "endEach_test v = contains ''{end:each}'' (case v of None \<Rightarrow> ''null'' | Some s \<Rightarrow> s)"

definition each_head :: "string \<Rightarrow> dom_node list \<Rightarrow> log_entry list \<times> (error + unit)" where
  "each_head expression following =
     (case dropWhile (\<lambda>n. n \<noteq> ElementNode) following of
        [] \<Rightarrow> ([], Inl TypeError)
      | eachContent # after \<Rightarrow>
          (case after of
             [] \<Rightarrow> ([], Inl TypeError)
           | closing # rest \<Rightarrow>
               (if \<not> endEach_test (nodeValue closing) then [ExpectedClosing expression] else [],
                Inr ())))"

section \<open>Arguments of event handlers (getArgumentValue)\<close>

text \<open>
  A read \<^verbatim>\<open>variables[key]\<close> goes through the proxy that \<^verbatim>\<open>variables\<close> is: the
  store's own, or a loop item's scope over the global store.
\<close>

definition variables_get :: "variables \<Rightarrow> Managers \<Rightarrow> key \<Rightarrow> jsval" where
  "variables_get vars w k =
     (case vars of
        StoreProxy \<Rightarrow> proxy_get (stateManager w) k
      | LocalProxy sc \<Rightarrow> scope_get sc (globalManager w) k)"

text \<open>
  The listener evaluates every argument of \<^verbatim>\<open>handler(arg1, arg2, ...)\<close> with
  \<^verbatim>\<open>getArgumentValue\<close>.
  \<^item> An argument that is one of the literals in \<^verbatim>\<open>Booleans\<close> is handed to
    \<^verbatim>\<open>parsePrimitive\<close>, a function the file neither defines nor imports: the call
    raises a ReferenceError.
  \<^item> An argument in which the pattern of a quoted substring matches is the first match,
    trimmed, without its quote characters.
  \<^item> For an argument with a dot, \<^verbatim>\<open>targetKey in variables[objKey]\<close> is tested first.
    The operator \<^verbatim>\<open>in\<close> raises a TypeError when its right operand is not an object;
    for an object or a function, \<open>has v k\<close> says whether it has the property.
  \<^item> Everything else is the value of \<^verbatim>\<open>evaluateExpression\<close>, which catches what the
    compiled expression raises; \<open>evaluate\<close> stands for it.
\<close>

definition Booleans :: "string list" where
  "Booleans = [''true'', ''false'', ''null'', ''undefined'', ''NaN'', ''NaN'', ''Infinity'', ''-Infinity'']"

fun firstQuoted :: "string \<Rightarrow> string option" where
  "firstQuoted [] = None"
| "firstQuoted (c # cs) =
     (if c = CHR 0x22 \<or> c = CHR 0x27 then
        (case quotedEnd c cs of
           Some rest \<Rightarrow> Some (c # take (length cs - length rest) cs)
         | None \<Rightarrow> firstQuoted cs)
      else firstQuoted cs)"

definition getArgumentValue ::
  "(jsval \<Rightarrow> key \<Rightarrow> bool) \<Rightarrow> (string \<Rightarrow> jsval) \<Rightarrow> string \<Rightarrow> variables \<Rightarrow> Managers
     \<Rightarrow> log_entry list \<times> (error + jsval)" where
  "getArgumentValue has evaluate currentArg vars w =
     (if list_ex (\<lambda>b. b = currentArg) Booleans then ([], Inl ReferenceError)
      else
        (case firstQuoted currentArg of
           Some m \<Rightarrow> ([], Inr (JStr (filter (\<lambda>c. c \<noteq> CHR 0x22 \<and> c \<noteq> CHR 0x27) (trim m))))
         | None \<Rightarrow>
             if CHR ''.'' \<in> set currentArg then
               (let objKey = takeWhile (\<lambda>c. c \<noteq> CHR ''.'') currentArg;
                    targetKey = rev (takeWhile (\<lambda>c. c \<noteq> CHR ''.'') (rev currentArg));
                    obj = variables_get vars w objKey
                in case obj of
                     JObj a \<Rightarrow>
                       if \<not> has obj targetKey then ([UndefinedArgument currentArg], Inr JUndefined)
                       else ([], Inr (evaluate currentArg))
                   | JFun f \<Rightarrow>
                       if \<not> has obj targetKey then ([UndefinedArgument currentArg], Inr JUndefined)
                       else ([], Inr (evaluate currentArg))
                   | _ \<Rightarrow> ([], Inl TypeError))
             else ([], Inr (evaluate currentArg))))"

section \<open>Claims about the store\<close>

text \<open>
  A store over \<^verbatim>\<open>{step: 1, count: 0}\<close> with the callback 1 subscribed to count and the
  callback 2 registered for the keys count and step; and a store over \<^verbatim>\<open>{}\<close> with the
  callback 3 subscribed to the key \<^verbatim>\<open>__proto__\<close>.
\<close>

definition counter_store :: ReactiveState where
  "counter_store =
     snd (addExpression [''count'', ''step''] 2
            (subscribe ''count'' 1
               (new_ReactiveState (object_literal [''step'' \<mapsto> JNum 1, ''count'' \<mapsto> JNum 0]))))"


lemma counter_store_fields:
  "state counter_store = object_literal [''step'' \<mapsto> JNum 1, ''count'' \<mapsto> JNum 0]"
  "subscribers counter_store = [''count'' \<mapsto> [Some 1]]"
  "expressions counter_store = [\<lparr>dep_id = 0, variables = [''count'', ''step''], callback = 2\<rparr>]"
  "calls counter_store = []"
  by (simp_all add: counter_store_def addExpression_def subscribe_def new_ReactiveState_def Let_def)





text \<open>
  Claim C5 at a concrete store, with callbacks that leave the store alone. The callback 2
  is registered for the keys count and step; a write that changes count calls it. After
  the handle's unsubscribe the same kind of write calls it again: unsubscribe left the
  expressions array as it was.
\<close>

theorem addExpression_unsubscribe_still_fires:
  "(case addExpression [''count'', ''step''] 2
           (new_ReactiveState (object_literal [''count'' \<mapsto> JNum 0, ''step'' \<mapsto> JNum 1])) of
      (handle, st) \<Rightarrow>
        map_option calls (proxy_set quiet_host ''count'' (JNum 1) st) = Some [2]
        \<and> map_option calls
            (proxy_set quiet_host ''count'' (JNum 1) (addExpression_unsubscribe handle st)) = Some [2]
        \<and> map_option calls
            (proxy_set quiet_host ''step'' (JNum 3) (addExpression_unsubscribe handle st)) = Some [2])"
  by (simp add: store_eval addExpression_unsubscribe_keeps addExpression_def new_ReactiveState_def
      quiet_host_def Let_def)

section \<open>Claims about scopes\<close>

definition item_scope :: Scope where
  "item_scope =
     createLocalProxy (object_literal [''item'' \<mapsto> JStr ''a'', ''index'' \<mapsto> JNum 0]) counter_store 10 11"

text \<open>
  Claim C3, as the code has it. The scope object has the local bindings and the two
  back-references \<^verbatim>\<open>__globalState\<close> and \<^verbatim>\<open>__globalManager\<close> as its own properties,
  and inherits the properties of \<^verbatim>\<open>Object.prototype\<close>.
  \<^item> A read returns the scope object's value when the key is in the scope object, else
    the value the parent store holds, else \<^verbatim>\<open>undefined\<close>.
  \<^item> A write of a key that is in the scope object, when it returns, returns true and
    leaves the parent store as it is. It stores the value as the scope's own binding,
    unless the scope object holds under the key an object or \<^verbatim>\<open>null\<close> loosely equal to
    the value (nothing is written), or the key is the inherited accessor
    \<^verbatim>\<open>__proto__\<close> (its setter takes the write).
  \<^item> A write of a key that is not in the scope object and is in the parent store's state
    is the parent store's own write, and returns true when that returns, as it does under
    a steady host: when the value differs from the stored one, it is stored there and the
    notification of the key's subscribers and expressions runs on the store that holds
    it.
  \<^item> A write of a key neither has changes nothing and the trap returns false: the
    assignment is silent in sloppy-mode code and raises a TypeError in strict-mode code.
\<close>

theorem scope_read_write_routing:
  "target (createLocalProxy l g0 sref mref) =
     object_literal ((own l)(''__globalState'' \<mapsto> JObj sref, ''__globalManager'' \<mapsto> JObj mref))
   \<and> scope_get sc g k =
       (if has_property (target sc) k then get_prop (target sc) k
        else if has_property (state g) k then get_prop (state g) k
        else JUndefined)
   \<and> (has_property (target sc) k \<longrightarrow>
        (scope_set h conv k v sc g = Some (ok, sc', g') \<longrightarrow> ok \<and> g' = g)
        \<and> (typeof (get_prop (target sc) k) = ''object''
             \<and> loose_eq_object conv (get_prop (target sc) k) v \<longrightarrow>
           scope_set h conv k v sc g = Some (True, sc, g))
        \<and> (\<not> (typeof (get_prop (target sc) k) = ''object''
                \<and> loose_eq_object conv (get_prop (target sc) k) v) \<longrightarrow>
           \<not> is_accessor (target sc) k \<longrightarrow>
           scope_set h conv k v sc g =
             Some (True, sc\<lparr>target := (target sc)\<lparr>own := (own (target sc))(k \<mapsto> v)\<rparr>\<rparr>, g)))
   \<and> (\<not> has_property (target sc) k \<longrightarrow> has_property (state g) k \<longrightarrow>
        scope_set h conv k v sc g = map_option (\<lambda>g'. (True, sc, g')) (proxy_set h k v g)
        \<and> (\<not> strict_eq (get_prop (state g) k) v \<longrightarrow> \<not> is_accessor (state g) k \<longrightarrow>
             proxy_set h k v g =
               Option.bind (notify h k (g\<lparr>state := (state g)\<lparr>own := (own (state g))(k \<mapsto> v)\<rparr>\<rparr>))
                 (checkExpression h k))
        \<and> (steady h \<longrightarrow> \<not> is_accessor (state g) k \<longrightarrow>
             (\<exists>g'. scope_set h conv k v sc g = Some (True, sc, g'))))
   \<and> (\<not> has_property (target sc) k \<longrightarrow> \<not> has_property (state g) k \<longrightarrow>
        scope_set h conv k v sc g = Some (False, sc, g)
        \<and> scope_assign False h conv k v sc g = Some (Inr (sc, g))
        \<and> scope_assign True h conv k v sc g = Some (Inl TypeError))"
proof -
  let ?guard = "typeof (get_prop (target sc) k) = ''object''
      \<and> loose_eq_object conv (get_prop (target sc) k) v"
  have made: "target (createLocalProxy l g0 sref mref) =
     object_literal ((own l)(''__globalState'' \<mapsto> JObj sref, ''__globalManager'' \<mapsto> JObj mref))"
    by (simp add: createLocalProxy_def)
  have rd: "scope_get sc g k =
       (if has_property (target sc) k then get_prop (target sc) k
        else if has_property (state g) k then get_prop (state g) k
        else JUndefined)"
    by (simp add: scope_get_def proxy_get_def)
  have own1: "ok \<and> g' = g"
    if "has_property (target sc) k" "scope_set h conv k v sc g = Some (ok, sc', g')"
    using that by (auto simp: scope_set_def split: if_splits)
  have own2: "scope_set h conv k v sc g = Some (True, sc, g)" if ?guard
    using that by (simp add: scope_set_def)
  have own3: "scope_set h conv k v sc g =
             Some (True, sc\<lparr>target := (target sc)\<lparr>own := (own (target sc))(k \<mapsto> v)\<rparr>\<rparr>, g)"
    if "has_property (target sc) k" "\<not> ?guard" "\<not> is_accessor (target sc) k"
    using that by (auto simp: scope_set_def put_prop_ordinary)
  have absent: "get_prop (target sc) k = JUndefined" if "\<not> has_property (target sc) k"
    using that by (auto simp: get_prop_def has_property_def split: option.splits)
  have fwd: "scope_set h conv k v sc g = map_option (\<lambda>g'. (True, sc, g')) (proxy_set h k v g)"
    if "\<not> has_property (target sc) k" "has_property (state g) k"
    using that by (simp add: scope_set_def absent)
  have fires: "proxy_set h k v g =
               Option.bind (notify h k (g\<lparr>state := (state g)\<lparr>own := (own (state g))(k \<mapsto> v)\<rparr>\<rparr>))
                 (checkExpression h k)"
    if "\<not> strict_eq (get_prop (state g) k) v" "\<not> is_accessor (state g) k"
    using that by (simp add: proxy_set_def put_prop_ordinary)
  have returns: "\<exists>g'. scope_set h conv k v sc g = Some (True, sc, g')"
    if "\<not> has_property (target sc) k" "has_property (state g) k" "steady h"
      "\<not> is_accessor (state g) k"
  proof -
    from proxy_set_returns [OF that(3,4), of v] obtain g' where "proxy_set h k v g = Some g'"
      by blast
    with fwd [OF that(1,2)] show ?thesis by simp
  qed
  have neither: "scope_set h conv k v sc g = Some (False, sc, g)
        \<and> scope_assign False h conv k v sc g = Some (Inr (sc, g))
        \<and> scope_assign True h conv k v sc g = Some (Inl TypeError)"
    if "\<not> has_property (target sc) k" "\<not> has_property (state g) k"
    using that by (simp add: scope_assign_def scope_set_def absent)
  from made rd own1 own2 own3 fwd fires returns neither show ?thesis by blast
qed

lemma item_scope_target:
  "target item_scope =
     object_literal [''item'' \<mapsto> JStr ''a'', ''index'' \<mapsto> JNum 0, ''__globalState'' \<mapsto> JObj 10,
       ''__globalManager'' \<mapsto> JObj 11]"
  by (simp add: item_scope_def createLocalProxy_def object_literal_def)

lemmas object_eval = has_property_def get_prop_def is_accessor_def object_literal_def objectPrototype_def

theorem scope_read_write_routing_witness:
  "scope_get item_scope counter_store ''item'' = JStr ''a''
   \<and> scope_get item_scope counter_store ''toString'' = JFun 8
   \<and> scope_get item_scope counter_store ''count'' = JNum 0
   \<and> scope_get item_scope counter_store ''other'' = JUndefined
   \<and> scope_set quiet_host (\<lambda>a p. False) ''item'' (JStr ''b'') item_scope counter_store =
       Some (True,
             item_scope\<lparr>target := (target item_scope)\<lparr>own := (own (target item_scope))(''item'' \<mapsto> JStr ''b'')\<rparr>\<rparr>,
             counter_store)
   \<and> scope_set quiet_host (\<lambda>a p. False) ''__globalState'' (JObj 10) item_scope counter_store =
       Some (True, item_scope, counter_store)
   \<and> scope_set quiet_host (\<lambda>a p. False) ''count'' (JNum 3) item_scope counter_store =
       map_option (\<lambda>g'. (True, item_scope, g')) (proxy_set quiet_host ''count'' (JNum 3) counter_store)
   \<and> map_option calls (proxy_set quiet_host ''count'' (JNum 3) counter_store) = Some [1, 2]
   \<and> scope_set quiet_host (\<lambda>a p. False) ''other'' (JNum 3) item_scope counter_store =
       Some (False, item_scope, counter_store)
   \<and> scope_assign False quiet_host (\<lambda>a p. False) ''other'' (JNum 3) item_scope counter_store =
       Some (Inr (item_scope, counter_store))"
proof -
  note t = scope_read_write_routing [where sc = item_scope and g = counter_store and h = quiet_host
      and conv = "\<lambda>a p. False"]
  have i: "has_property (target item_scope) ''item''"
    and s: "has_property (target item_scope) ''toString''"
    and b: "has_property (target item_scope) ''__globalState''"
    and c: "\<not> has_property (target item_scope) ''count''" "has_property (state counter_store) ''count''"
    and n: "\<not> has_property (target item_scope) ''other''" "\<not> has_property (state counter_store) ''other''"
    by (simp_all add: item_scope_target counter_store_fields object_eval)
  have r1: "scope_get item_scope counter_store ''item'' = JStr ''a''"
    using t [of _ _ _ _ "''item''"] i by (simp add: item_scope_target object_eval)
  have r2: "scope_get item_scope counter_store ''toString'' = JFun 8"
    using t [of _ _ _ _ "''toString''"] s by (simp add: item_scope_target object_eval)
  have r3: "scope_get item_scope counter_store ''count'' = JNum 0"
    using t [of _ _ _ _ "''count''"] c by (simp add: counter_store_fields object_eval)
  have r4: "scope_get item_scope counter_store ''other'' = JUndefined"
    using t [of _ _ _ _ "''other''"] n by simp
  have g1: "\<not> (typeof (get_prop (target item_scope) ''item'') = ''object''
      \<and> loose_eq_object (\<lambda>a p. False) (get_prop (target item_scope) ''item'') (JStr ''b''))"
    and a1: "\<not> is_accessor (target item_scope) ''item''"
    by (simp_all add: item_scope_target object_eval)
  have w1: "scope_set quiet_host (\<lambda>a p. False) ''item'' (JStr ''b'') item_scope counter_store =
       Some (True,
             item_scope\<lparr>target := (target item_scope)\<lparr>own := (own (target item_scope))(''item'' \<mapsto> JStr ''b'')\<rparr>\<rparr>,
             counter_store)"
    using t [of _ _ _ _ "''item''" "JStr ''b''"] i g1 a1 by blast
  have g2: "typeof (get_prop (target item_scope) ''__globalState'') = ''object''
      \<and> loose_eq_object (\<lambda>a p. False) (get_prop (target item_scope) ''__globalState'') (JObj 10)"
    by (simp add: item_scope_target object_eval)
  have w2: "scope_set quiet_host (\<lambda>a p. False) ''__globalState'' (JObj 10) item_scope counter_store =
       Some (True, item_scope, counter_store)"
    using t [of _ _ _ _ "''__globalState''" "JObj 10"] b g2 by blast
  have ch: "\<not> strict_eq (get_prop (state counter_store) ''count'') (JNum 3)"
    "\<not> is_accessor (state counter_store) ''count''"
    by (simp_all add: counter_store_fields object_eval strict_eq_def)
  have w3: "scope_set quiet_host (\<lambda>a p. False) ''count'' (JNum 3) item_scope counter_store =
       map_option (\<lambda>g'. (True, item_scope, g')) (proxy_set quiet_host ''count'' (JNum 3) counter_store)"
    and w3': "proxy_set quiet_host ''count'' (JNum 3) counter_store =
       Option.bind
         (notify quiet_host ''count''
            (counter_store\<lparr>state := (state counter_store)\<lparr>own := (own (state counter_store))(''count'' \<mapsto> JNum 3)\<rparr>\<rparr>))
         (checkExpression quiet_host ''count'')"
    using t [of _ _ _ _ "''count''" "JNum 3"] c ch by blast+
  have f: "map_option calls (proxy_set quiet_host ''count'' (JNum 3) counter_store) = Some [1, 2]"
    unfolding w3'
    by (simp add: notify_def checkExpression_def invoke_def notify_from_eval counter_store_fields
        quiet_host_def)
  have w4: "scope_set quiet_host (\<lambda>a p. False) ''other'' (JNum 3) item_scope counter_store =
       Some (False, item_scope, counter_store)"
    and w5: "scope_assign False quiet_host (\<lambda>a p. False) ''other'' (JNum 3) item_scope counter_store =
       Some (Inr (item_scope, counter_store))"
    using t [of _ _ _ _ "''other''" "JNum 3"] n by blast+
  from r1 r2 r3 r4 w1 w2 w3 f w4 w5 show ?thesis by simp
qed

text \<open>
  The claim as it is written fails in seven places. The first five are shown on scopes
  built over a store with the empty state \<^verbatim>\<open>{}\<close>. A scope with no local binding
  reads \<^verbatim>\<open>__globalState\<close> as an object and \<^verbatim>\<open>toString\<close> as a function, not as
  \<^verbatim>\<open>undefined\<close>. A write of \<^verbatim>\<open>undefined\<close> to a local binding that holds
  \<^verbatim>\<open>null\<close> returns true and leaves \<^verbatim>\<open>null\<close> there. A write of the number 5 to
  \<^verbatim>\<open>__proto__\<close> returns true and binds nothing. An assignment, in strict-mode code, to
  a key that neither the scope nor the store has raises a TypeError. The last two are
  writes, through the scope of an item, of the parent store's key count: a write of the
  value the store holds calls no subscriber, and a write of another value does not
  return when a subscriber of count raises.
\<close>

theorem scope_routing_counterexample:
  "scope_get (createLocalProxy (object_literal Map.empty) (new_ReactiveState (object_literal Map.empty)) 10 11)
       (new_ReactiveState (object_literal Map.empty)) ''__globalState'' = JObj 10
   \<and> scope_get (createLocalProxy (object_literal Map.empty) (new_ReactiveState (object_literal Map.empty)) 10 11)
       (new_ReactiveState (object_literal Map.empty)) ''toString'' = JFun 8
   \<and> scope_set quiet_host (\<lambda>a p. False) ''a'' JUndefined
        (createLocalProxy (object_literal [''a'' \<mapsto> JNull]) (new_ReactiveState (object_literal Map.empty)) 10 11)
        (new_ReactiveState (object_literal Map.empty))
      = Some (True,
              createLocalProxy (object_literal [''a'' \<mapsto> JNull]) (new_ReactiveState (object_literal Map.empty)) 10 11,
              new_ReactiveState (object_literal Map.empty))
   \<and> scope_get (createLocalProxy (object_literal [''a'' \<mapsto> JNull]) (new_ReactiveState (object_literal Map.empty)) 10 11)
       (new_ReactiveState (object_literal Map.empty)) ''a'' = JNull
   \<and> scope_set quiet_host (\<lambda>a p. False) ''__proto__'' (JNum 5)
        (createLocalProxy (object_literal Map.empty) (new_ReactiveState (object_literal Map.empty)) 10 11)
        (new_ReactiveState (object_literal Map.empty))
      = Some (True,
              createLocalProxy (object_literal Map.empty) (new_ReactiveState (object_literal Map.empty)) 10 11,
              new_ReactiveState (object_literal Map.empty))
   \<and> scope_assign True quiet_host (\<lambda>a p. False) ''other'' (JNum 3)
        (createLocalProxy (object_literal Map.empty) (new_ReactiveState (object_literal Map.empty)) 10 11)
        (new_ReactiveState (object_literal Map.empty))
      = Some (Inl TypeError)
   \<and> scope_set quiet_host (\<lambda>a p. False) ''count'' (JNum 0) item_scope counter_store =
       Some (True, item_scope, counter_store)
   \<and> calls counter_store = []
   \<and> scope_set raising_host (\<lambda>a p. False) ''count'' (JNum 3) item_scope counter_store = None"
proof -
  have "scope_set quiet_host (\<lambda>a p. False) ''count'' (JNum 0) item_scope counter_store =
       Some (True, item_scope, counter_store)"
    "scope_set raising_host (\<lambda>a p. False) ''count'' (JNum 3) item_scope counter_store = None"
    by (simp_all add: scope_set_def item_scope_target counter_store_fields store_eval
        has_property_def objectPrototype_def raising_host_def)
  then show ?thesis
    by (simp add: scope_get_def scope_set_def scope_assign_def createLocalProxy_def put_prop_def
        new_ReactiveState_def object_eval counter_store_fields)
qed

section \<open>Claims about conditional blocks\<close>

text \<open>
  A sibling list with one block: node 1 is the start marker, 2 the if-branch, 3 the else
  marker, 4 the else-branch, 5 the end marker; 0 and 6 are siblings outside the block.
\<close>

definition showing_else :: "IfBlock \<times> node list" where
  "showing_else =
     (\<lparr>ifNodes = [2], elseNodes = [4], blockStart = 1, lastEval = JBool False,
       tempFragment = []\<rparr>, [0, 1, 4, 3, 5, 6])"

lemma after_marker_sets:
  assumes "bs \<in> set xs"
  shows "set (after_marker bs new xs) = set xs \<union> set new"
proof -
  have "set (after_marker bs new xs) =
        set (takeWhile (\<lambda>x. x \<noteq> bs) xs @ bs # tl (dropWhile (\<lambda>x. x \<noteq> bs) xs)) \<union> set new"
    by (auto simp: after_marker_def)
  then show ?thesis
    by (simp only: split_at_marker [OF assms])
qed

text \<open>
  What an update that passes the memo test leaves in the tree: of the block's nodes,
  exactly the branch the guard selects, in its order, right after the start marker.
\<close>

lemma if_update_attaches_selected:
  assumes "block_in_tree blk ch" and "\<not> strict_eq (lastEval blk) ev"
  shows "snd (if_update ev (blk, ch)) =
           after_marker (blockStart blk) (if truthy ev then ifNodes blk else elseNodes blk)
             (outside blk ch)"
    and "{n \<in> set (snd (if_update ev (blk, ch))). n \<in> set (ifNodes blk) \<or> n \<in> set (elseNodes blk)}
           = set (if truthy ev then ifNodes blk else elseNodes blk)"
proof -
  show a: "snd (if_update ev (blk, ch)) =
           after_marker (blockStart blk) (if truthy ev then ifNodes blk else elseNodes blk)
             (outside blk ch)"
    using assms by (simp add: if_update_truthy if_update_falsy)
  have "blockStart blk \<in> set (outside blk ch)"
    using outside_marker [OF assms(1)] by simp
  then have "set (snd (if_update ev (blk, ch))) =
      set (outside blk ch) \<union> set (if truthy ev then ifNodes blk else elseNodes blk)"
    by (simp only: a after_marker_sets)
  then show "{n \<in> set (snd (if_update ev (blk, ch))). n \<in> set (ifNodes blk) \<or> n \<in> set (elseNodes blk)}
           = set (if truthy ev then ifNodes blk else elseNodes blk)"
    by (auto simp: outside_def)
qed

text \<open>
  An update leaves a block as the extractor made it: the children stay distinct, the
  marker stays among them, the fragment is empty again.
\<close>

lemma distinct_after_marker:
  assumes "distinct xs" and "bs \<in> set xs" and "distinct new" and "set new \<inter> set xs = {}"
  shows "distinct (after_marker bs new xs)"
proof -
  let ?a = "takeWhile (\<lambda>x. x \<noteq> bs) xs" and ?b = "tl (dropWhile (\<lambda>x. x \<noteq> bs) xs)"
  have xs: "?a @ bs # ?b = xs" by (rule split_at_marker [OF assms(2)])
  then have "distinct (?a @ bs # ?b)" using assms(1) by simp
  moreover have "set new \<inter> set (?a @ bs # ?b) = {}" using assms(4) xs by simp
  ultimately show ?thesis
    using assms(3) by (auto simp: after_marker_def)
qed

lemma if_update_keeps_block_in_tree:
  assumes "block_in_tree blk ch"
  shows "block_in_tree (fst (if_update ev (blk, ch))) (snd (if_update ev (blk, ch)))"
proof (cases "strict_eq (lastEval blk) ev")
  case True
  with assms show ?thesis by (simp add: if_update_same)
next
  case False
  let ?sel = "if truthy ev then ifNodes blk else elseNodes blk"
  let ?out = "outside blk ch"
  have eq: "if_update ev (blk, ch) =
      (blk\<lparr>lastEval := ev, tempFragment := []\<rparr>, after_marker (blockStart blk) ?sel ?out)"
    using assms False by (simp add: if_update_truthy if_update_falsy)
  have o: "distinct ?out" "blockStart blk \<in> set ?out"
    using outside_marker [OF assms] by simp_all
  have s: "distinct ?sel" "set ?sel \<inter> set ?out = {}"
    using assms by (auto simp: block_in_tree_def outside_def)
  have d: "distinct (after_marker (blockStart blk) ?sel ?out)"
    by (rule distinct_after_marker [OF o s])
  have m: "blockStart blk \<in> set (after_marker (blockStart blk) ?sel ?out)"
    using o(2) by (simp add: after_marker_sets)
  from d m assms show ?thesis
    by (simp add: eq block_in_tree_def)
qed

text \<open>
  Claim C7. An update whose guard value is strictly equal to the memo returns the block
  and the tree as they are. An update of a well-formed block whose memo is falsy and
  whose guard value is truthy puts the if-branch right after the start marker and takes
  the else-branch out; the nodes outside the block are the same, in the same order.
\<close>

theorem if_update_memo_and_frame:
  "(strict_eq (lastEval blk) ev \<longrightarrow> if_update ev (blk, ch) = (blk, ch))
   \<and> (block_in_tree blk ch \<longrightarrow> \<not> truthy (lastEval blk) \<longrightarrow> truthy ev \<longrightarrow>
        snd (if_update ev (blk, ch)) =
          after_marker (blockStart blk) (ifNodes blk) (outside blk ch)
        \<and> outside blk (snd (if_update ev (blk, ch))) = outside blk ch
        \<and> set (ifNodes blk) \<subseteq> set (snd (if_update ev (blk, ch)))
        \<and> set (elseNodes blk) \<inter> set (snd (if_update ev (blk, ch))) = {}
        \<and> fst (if_update ev (blk, ch)) = blk\<lparr>lastEval := ev, tempFragment := []\<rparr>)"
proof -
  have frame: "snd (if_update ev (blk, ch)) =
          after_marker (blockStart blk) (ifNodes blk) (outside blk ch)
        \<and> outside blk (snd (if_update ev (blk, ch))) = outside blk ch
        \<and> set (ifNodes blk) \<subseteq> set (snd (if_update ev (blk, ch)))
        \<and> set (elseNodes blk) \<inter> set (snd (if_update ev (blk, ch))) = {}
        \<and> fst (if_update ev (blk, ch)) = blk\<lparr>lastEval := ev, tempFragment := []\<rparr>"
    if wf: "block_in_tree blk ch" and f: "\<not> truthy (lastEval blk)" and t: "truthy ev"
  proof -
    have ne: "\<not> strict_eq (lastEval blk) ev"
      using f t by (auto simp: strict_eq_def)
    have bs: "blockStart blk \<in> set (outside blk ch)"
      using outside_marker [OF wf] by simp
    have dj: "set (ifNodes blk) \<inter> set (elseNodes blk) = {}"
      using wf by (simp add: block_in_tree_def)
    have eq: "if_update ev (blk, ch) =
           (blk\<lparr>lastEval := ev, tempFragment := []\<rparr>,
            after_marker (blockStart blk) (ifNodes blk) (outside blk ch))"
      by (rule if_update_truthy [OF wf ne t])
    have s: "set (snd (if_update ev (blk, ch))) = set (outside blk ch) \<union> set (ifNodes blk)"
      by (simp add: eq after_marker_sets [OF bs])
    have o: "outside blk (snd (if_update ev (blk, ch))) = outside blk ch"
      using outside_after_marker [OF bs, of "ifNodes blk"] by (simp add: eq)
    have e: "set (elseNodes blk) \<inter> set (snd (if_update ev (blk, ch))) = {}"
      using dj by (auto simp: s outside_def)
    have i: "set (ifNodes blk) \<subseteq> set (snd (if_update ev (blk, ch)))"
      by (simp add: s)
    have m: "fst (if_update ev (blk, ch)) = blk\<lparr>lastEval := ev, tempFragment := []\<rparr>"
      and c: "snd (if_update ev (blk, ch)) =
          after_marker (blockStart blk) (ifNodes blk) (outside blk ch)"
      by (simp_all add: eq)
    from c o i e m show ?thesis by blast
  qed
  show ?thesis
    using if_update_same [of blk ev ch] frame by blast
qed

theorem if_update_memo_and_frame_witness:
  "strict_eq (lastEval (fst showing_else)) (JBool False)
   \<and> if_update (JBool False) showing_else = showing_else
   \<and> block_in_tree (fst showing_else) (snd showing_else)
   \<and> \<not> truthy (lastEval (fst showing_else)) \<and> truthy (JNum 1)
   \<and> snd (if_update (JNum 1) showing_else) = [0, 1, 2, 3, 5, 6]
   \<and> outside (fst showing_else) (snd showing_else) = [0, 1, 3, 5, 6]"
proof -
  have se: "showing_else = (fst showing_else, snd showing_else)" by simp
  have m: "strict_eq (lastEval (fst showing_else)) (JBool False)"
    by (simp add: showing_else_def strict_eq_def)
  have wf: "block_in_tree (fst showing_else) (snd showing_else)"
    by (simp add: showing_else_def block_in_tree_def)
  have f: "\<not> truthy (lastEval (fst showing_else))"
    by (simp add: showing_else_def)
  have o: "outside (fst showing_else) (snd showing_else) = [0, 1, 3, 5, 6]"
    by (simp add: showing_else_def outside_def)
  have same: "if_update (JBool False) showing_else = showing_else"
    using m if_update_memo_and_frame
      [of "fst showing_else" "JBool False" "snd showing_else"]
    by simp
  have swap: "snd (if_update (JNum 1) showing_else) = [0, 1, 2, 3, 5, 6]"
    using wf f if_update_memo_and_frame
      [of "fst showing_else" "JNum 1" "snd showing_else"]
    by (simp add: o) (simp add: showing_else_def after_marker_def)
  from m same wf f o swap show ?thesis by simp
qed

text \<open>
  Claim C6 at a concrete block whose guard is \<^verbatim>\<open>undefined\<close> when it is bound. Both
  branches are children of the parent before the first update (the extractor does not
  detach them). The first update compares the guard value with the memo, which starts
  as \<^verbatim>\<open>undefined\<close>, and returns at once: nodes 2 and 4 both stay attached. A guard
  that is \<^verbatim>\<open>false\<close> at bind time leaves the else-branch only.
\<close>

theorem if_bind_undefined_keeps_both:
  "snd (if_bind [2] [4] 1 JUndefined [0, 1, 2, 3, 4, 5, 6]) = [0, 1, 2, 3, 4, 5, 6]
   \<and> snd (if_bind [2] [4] 1 (JBool False) [0, 1, 2, 3, 4, 5, 6]) = [0, 1, 4, 3, 5, 6]
   \<and> snd (if_bind [2] [4] 1 (JBool True) [0, 1, 2, 3, 4, 5, 6]) = [0, 1, 2, 3, 5, 6]"
  by (simp add: if_bind_def if_update_def strict_eq_def appendChild_def remove_node_def Let_def)

section \<open>Claims about keyed lists\<close>

text \<open>
  A block \<^verbatim>\<open>{for:each item of items}\<close> whose scopes carry nothing: node 0 is the start
  marker, node 9 the template element, node 1 the end marker, and the rendered nodes are
  numbered from 10. The parser takes the template element out of the tree after the
  first update. The object 5 holds a function, so \<^verbatim>\<open>structuredClone\<close> refuses it; the
  copy of another object \<open>a\<close> is the new object \<open>a + 100\<close>. The writes into an item's
  scope complete. The state \<open>two_objects\<close> is the block after rendering the objects 1
  and 2, \<open>with_function\<close> after rendering the objects 1 and 5, \<open>three_numbers\<close> after
  rendering 1, 2, 3, and \<open>twice\<close> after rendering the objects 1, 1, 2 and 3.
\<close>

definition list_env :: "unit EachEnv" where
  "list_env =
     \<lparr>arrayName = ''items'', each_expression = ''{for:each item of items}'',
      each_blockStart = 0, uniid = (\<lambda>n. replicate (Suc n) (CHR ''k'')),
      write_index = (\<lambda>sc i. Inr ()),
      structuredClone =
        (\<lambda>v. case v of
               JObj a \<Rightarrow> if a = 5 then Inl DataCloneError else Inr (JObj (a + 100))
             | _ \<Rightarrow> Inr v),
      write_item = (\<lambda>sc v. Inr ()),
      create = (\<lambda>item i n. Inr ())\<rparr>"

definition unrendered :: "unit EachState" where
  "unrendered = \<lparr>domNodes = [], children = [0, 9, 1], next_node = 10, master_keys = Map.empty, minted = 0\<rparr>"

definition two_objects :: "unit EachState" where
  "two_objects =
     \<lparr>domNodes = [\<lparr>rec_node = 10, rec_item = JObj 1, rec_index = 0, rec_key = JStr ''k'', rec_scope = ()\<rparr>,
                 \<lparr>rec_node = 11, rec_item = JObj 2, rec_index = 1, rec_key = JStr ''kk'', rec_scope = ()\<rparr>],
      children = [0, 10, 11, 1], next_node = 12,
      master_keys = [1 \<mapsto> ''k'', 2 \<mapsto> ''kk''], minted = 2\<rparr>"

definition three_numbers :: "unit EachState" where
  "three_numbers =
     \<lparr>domNodes = [\<lparr>rec_node = 10, rec_item = JNum 1, rec_index = 0, rec_key = JNum 1, rec_scope = ()\<rparr>,
                 \<lparr>rec_node = 11, rec_item = JNum 2, rec_index = 1, rec_key = JNum 2, rec_scope = ()\<rparr>,
                 \<lparr>rec_node = 12, rec_item = JNum 3, rec_index = 2, rec_key = JNum 3, rec_scope = ()\<rparr>],
      children = [0, 10, 11, 12, 1], next_node = 13, master_keys = Map.empty, minted = 0\<rparr>"

definition with_function :: "unit EachState" where
  "with_function =
     \<lparr>domNodes = [\<lparr>rec_node = 10, rec_item = JObj 1, rec_index = 0, rec_key = JStr ''k'', rec_scope = ()\<rparr>,
                 \<lparr>rec_node = 11, rec_item = JObj 5, rec_index = 1, rec_key = JStr ''kk'', rec_scope = ()\<rparr>],
      children = [0, 10, 11, 1], next_node = 12,
      master_keys = [1 \<mapsto> ''k'', 5 \<mapsto> ''kk''], minted = 2\<rparr>"

definition twice :: "unit EachState" where
  "twice =
     \<lparr>domNodes = [\<lparr>rec_node = 10, rec_item = JObj 1, rec_index = 0, rec_key = JStr ''k'', rec_scope = ()\<rparr>,
                 \<lparr>rec_node = 11, rec_item = JObj 1, rec_index = 1, rec_key = JStr ''k'', rec_scope = ()\<rparr>,
                 \<lparr>rec_node = 12, rec_item = JObj 2, rec_index = 2, rec_key = JStr ''kk'', rec_scope = ()\<rparr>,
                 \<lparr>rec_node = 13, rec_item = JObj 3, rec_index = 3, rec_key = JStr ''kkk'', rec_scope = ()\<rparr>],
      children = [0, 10, 11, 12, 13, 1], next_node = 14,
      master_keys = [1 \<mapsto> ''k'', 2 \<mapsto> ''kk'', 3 \<mapsto> ''kkk''], minted = 3\<rparr>"

lemma first_renders:
  "each_update list_env (Items [JObj 1, JObj 2]) unrendered =
     ([], Inr (two_objects\<lparr>children := [0, 10, 11, 9, 1]\<rparr>))"
  "each_update list_env (Items [JNum 1, JNum 2, JNum 3]) unrendered =
     ([], Inr (three_numbers\<lparr>children := [0, 10, 11, 12, 9, 1]\<rparr>))"
  "each_update list_env (Items [JObj 1, JObj 5]) unrendered =
     ([], Inr (with_function\<lparr>children := [0, 10, 11, 9, 1]\<rparr>))"
  "each_update list_env (Items [JObj 1, JObj 1, JObj 2, JObj 3]) unrendered =
     ([], Inr (twice\<lparr>children := [0, 10, 11, 12, 13, 9, 1]\<rparr>))"
  by (simp_all add: each_update_def list_env_def unrendered_def two_objects_def three_numbers_def
      with_function_def twice_def new_Map_def appendChild_def Let_def)




text \<open>
  Claim C9. In the second loop, an item whose key the map of the old records does not
  hold (any more) is skipped when the new array is as long as the previous render's
  records, and gets a record with a newly cloned node when the lengths differ and
  building its scope completes. For the whole update: with equal lengths no node is
  cloned and every record's node is one of the previous records' nodes; with different
  lengths every item has its record.
\<close>

theorem each_creates_only_when_lengths_differ:
  "(map_of (oldNodeMap p) (key_of mk item) = None \<longrightarrow>
      each_items env mk False i (item # rest) p = each_items env mk False (Suc i) rest p
      \<and> (create env item i (pass_next p) = Inr sc \<longrightarrow>
           each_items env mk True i (item # rest) p =
             each_items env mk True (Suc i) rest
               (p\<lparr>newDomNodes := newDomNodes p @
                    [\<lparr>rec_node = pass_next p, rec_item = item, rec_index = i,
                      rec_key = key_of mk item, rec_scope = sc\<rparr>],
                  pass_next := Suc (pass_next p)\<rparr>)))
   \<and> (each_update env (Items items) st = (lg, Inr st') \<longrightarrow>
        length items = length (domNodes st) \<longrightarrow>
          next_node st' = next_node st
          \<and> set (map rec_node (domNodes st')) \<subseteq> set (map rec_node (domNodes st)))
   \<and> (each_update env (Items items) st = (lg, Inr st') \<longrightarrow>
        length items \<noteq> length (domNodes st) \<longrightarrow>
          map rec_item (domNodes st') = items)"
proof -
  have step: "each_items env mk False i (item # rest) p = each_items env mk False (Suc i) rest p
      \<and> (create env item i (pass_next p) = Inr sc \<longrightarrow>
           each_items env mk True i (item # rest) p =
             each_items env mk True (Suc i) rest
               (p\<lparr>newDomNodes := newDomNodes p @
                    [\<lparr>rec_node = pass_next p, rec_item = item, rec_index = i,
                      rec_key = key_of mk item, rec_scope = sc\<rparr>],
                  pass_next := Suc (pass_next p)\<rparr>))"
    if "map_of (oldNodeMap p) (key_of mk item) = None"
    using that by (simp add: Let_def)
  have same: "next_node st' = next_node st
          \<and> set (map rec_node (domNodes st')) \<subseteq> set (map rec_node (domNodes st))"
    if r: "each_update env (Items items) st = (lg, Inr st')"
      and l: "length items = length (domNodes st)"
  proof -
    from each_update_returns [OF r] l obtain mk p where
      p: "each_items env mk False 0 items
            \<lparr>oldNodeMap = new_Map (map (\<lambda>r. (rec_key r, r)) (domNodes st)),
             newDomNodes = [], pass_next = next_node st\<rparr> = Inr p"
      and d: "domNodes st' = newDomNodes p" and n: "next_node st' = pass_next p"
      by auto
    from each_items_equal_lengths [OF p]
    have a: "pass_next p = next_node st"
      and b: "set (map rec_node (newDomNodes p))
          \<subseteq> set (map (\<lambda>e. rec_node (snd e)) (new_Map (map (\<lambda>r. (rec_key r, r)) (domNodes st))))"
      by simp_all
    have "set (map (\<lambda>e. rec_node (snd e)) (new_Map (map (\<lambda>r. (rec_key r, r)) (domNodes st))))
        \<subseteq> set (map rec_node (domNodes st))"
      using set_new_Map [of "map (\<lambda>r. (rec_key r, r)) (domNodes st)"] by auto
    with a b d n show ?thesis by auto
  qed
  have grow: "map rec_item (domNodes st') = items"
    if r: "each_update env (Items items) st = (lg, Inr st')"
      and l: "length items \<noteq> length (domNodes st)"
  proof -
    from each_update_returns [OF r] l obtain mk p where
      p: "each_items env mk True 0 items
            \<lparr>oldNodeMap = new_Map (map (\<lambda>r. (rec_key r, r)) (domNodes st)),
             newDomNodes = [], pass_next = next_node st\<rparr> = Inr p"
      and d: "domNodes st' = newDomNodes p"
      by auto
    from each_items_differ_lengths [OF p] d show ?thesis by simp
  qed
  from step same grow show ?thesis by blast
qed

theorem each_creates_only_when_lengths_differ_witness:
  "map_of [] (key_of Map.empty (JNum 4)) = None
   \<and> create list_env (JNum 4) 3 13 = Inr ()
   \<and> each_items list_env Map.empty False 3 [JNum 4]
        \<lparr>oldNodeMap = [], newDomNodes = [], pass_next = 13\<rparr>
       = Inr \<lparr>oldNodeMap = [], newDomNodes = [], pass_next = 13\<rparr>
   \<and> each_items list_env Map.empty True 3 [JNum 4]
        \<lparr>oldNodeMap = [], newDomNodes = [], pass_next = 13\<rparr>
       = Inr \<lparr>oldNodeMap = [],
              newDomNodes = [\<lparr>rec_node = 13, rec_item = JNum 4, rec_index = 3, rec_key = JNum 4, rec_scope = ()\<rparr>],
              pass_next = 14\<rparr>
   \<and> (\<exists>st'. each_update list_env (Items [JNum 1, JNum 2, JNum 4]) three_numbers = ([], Inr st')
         \<and> length [JNum 1, JNum 2, JNum 4] = length (domNodes three_numbers)
         \<and> next_node st' = next_node three_numbers
         \<and> map rec_node (domNodes st') = [10, 11]
         \<and> children st' = [0, 10, 11, 1])
   \<and> (\<exists>st'. each_update list_env (Items [JNum 1, JNum 2, JNum 3, JNum 4]) three_numbers = ([], Inr st')
         \<and> length [JNum 1, JNum 2, JNum 3, JNum 4] \<noteq> length (domNodes three_numbers)
         \<and> map rec_item (domNodes st') = [JNum 1, JNum 2, JNum 3, JNum 4]
         \<and> map rec_node (domNodes st') = [10, 11, 12, 13]
         \<and> children st' = [0, 10, 11, 12, 13, 1])"
proof -
  let ?p = "\<lparr>oldNodeMap = [], newDomNodes = [], pass_next = 13\<rparr> :: unit Pass"
  have a: "map_of (oldNodeMap ?p) (key_of Map.empty (JNum 4)) = None" by simp
  have b: "create list_env (JNum 4) 3 (pass_next ?p) = Inr ()" by (simp add: list_env_def)
  have s1: "each_items list_env Map.empty False 3 [JNum 4] ?p = Inr ?p"
    using a each_creates_only_when_lengths_differ
      [of ?p Map.empty "JNum 4" list_env 3 "[]"]
    by simp
  have s2: "each_items list_env Map.empty True 3 [JNum 4] ?p =
      Inr \<lparr>oldNodeMap = [],
              newDomNodes = [\<lparr>rec_node = 13, rec_item = JNum 4, rec_index = 3, rec_key = JNum 4, rec_scope = ()\<rparr>],
              pass_next = 14\<rparr>"
    using a b each_creates_only_when_lengths_differ
      [of ?p Map.empty "JNum 4" list_env 3 "[]" "()"]
    by simp
  let ?same = "\<lparr>domNodes = [\<lparr>rec_node = 10, rec_item = JNum 1, rec_index = 0, rec_key = JNum 1, rec_scope = ()\<rparr>,
                \<lparr>rec_node = 11, rec_item = JNum 2, rec_index = 1, rec_key = JNum 2, rec_scope = ()\<rparr>],
      children = [0, 10, 11, 1],
      next_node = 13, master_keys = Map.empty, minted = 0\<rparr> :: unit EachState"
  have e: "each_update list_env (Items [JNum 1, JNum 2, JNum 4]) three_numbers = ([], Inr ?same)"
    by (simp add: three_numbers_def each_update_def refresh_def list_env_def new_Map_def map_delete_def
        removeChild_def appendChild_def Let_def)
  have el: "length [JNum 1, JNum 2, JNum 4] = length (domNodes three_numbers)"
    by (simp add: three_numbers_def)
  have "next_node ?same = next_node three_numbers"
    using e el each_creates_only_when_lengths_differ
      [of _ _ _ list_env _ _ _ "[JNum 1, JNum 2, JNum 4]" three_numbers "[]" ?same]
    by blast
  with e el have w1: "\<exists>st'. each_update list_env (Items [JNum 1, JNum 2, JNum 4]) three_numbers = ([], Inr st')
         \<and> length [JNum 1, JNum 2, JNum 4] = length (domNodes three_numbers)
         \<and> next_node st' = next_node three_numbers
         \<and> map rec_node (domNodes st') = [10, 11]
         \<and> children st' = [0, 10, 11, 1]"
    by (intro exI [of _ ?same]) simp
  let ?more = "\<lparr>domNodes = [\<lparr>rec_node = 10, rec_item = JNum 1, rec_index = 0, rec_key = JNum 1, rec_scope = ()\<rparr>,
                \<lparr>rec_node = 11, rec_item = JNum 2, rec_index = 1, rec_key = JNum 2, rec_scope = ()\<rparr>,
                \<lparr>rec_node = 12, rec_item = JNum 3, rec_index = 2, rec_key = JNum 3, rec_scope = ()\<rparr>,
                \<lparr>rec_node = 13, rec_item = JNum 4, rec_index = 3, rec_key = JNum 4, rec_scope = ()\<rparr>],
      children = [0, 10, 11, 12, 13, 1],
      next_node = 14, master_keys = Map.empty, minted = 0\<rparr> :: unit EachState"
  have g: "each_update list_env (Items [JNum 1, JNum 2, JNum 3, JNum 4]) three_numbers = ([], Inr ?more)"
    by (simp add: three_numbers_def each_update_def refresh_def list_env_def new_Map_def map_delete_def
        removeChild_def appendChild_def Let_def)
  have gl: "length [JNum 1, JNum 2, JNum 3, JNum 4] \<noteq> length (domNodes three_numbers)"
    by (simp add: three_numbers_def)
  have "map rec_item (domNodes ?more) = [JNum 1, JNum 2, JNum 3, JNum 4]"
    using g gl each_creates_only_when_lengths_differ
      [of _ _ _ list_env _ _ _ "[JNum 1, JNum 2, JNum 3, JNum 4]" three_numbers "[]" ?more]
    by blast
  with g gl have w2: "\<exists>st'. each_update list_env (Items [JNum 1, JNum 2, JNum 3, JNum 4]) three_numbers = ([], Inr st')
         \<and> length [JNum 1, JNum 2, JNum 3, JNum 4] \<noteq> length (domNodes three_numbers)
         \<and> map rec_item (domNodes st') = [JNum 1, JNum 2, JNum 3, JNum 4]
         \<and> map rec_node (domNodes st') = [10, 11, 12, 13]
         \<and> children st' = [0, 10, 11, 12, 13, 1]"
    by (intro exI [of _ ?more]) simp
  from a b s1 s2 w1 w2 show ?thesis by simp
qed

text \<open>
  Claim C10 at a concrete block. A source that is the number 5, or an object that is
  not an array, is logged and then raises: the closure calls \<^verbatim>\<open>forEach\<close> on it. A
  source that is \<^verbatim>\<open>undefined\<close> is replaced by the empty array before the test, so
  nothing is logged and the block renders empty.
\<close>

theorem each_not_an_array:
  "each_update list_env (Other (JNum 5)) unrendered =
     ([NotAnArray ''items'' ''{for:each item of items}''], Inl TypeError)
   \<and> each_update list_env (Other (JObj 7)) unrendered =
     ([NotAnArray ''items'' ''{for:each item of items}''], Inl TypeError)
   \<and> each_update list_env (Other JUndefined) unrendered = ([], Inr unrendered)"
  by (simp add: each_update_def list_env_def unrendered_def new_Map_def)

section \<open>Claims about dependency registration\<close>

text \<open>
  A store with four keys, registered against through its own proxy; and the scope and
  the local store of one loop item over it; and the scope of a loop item that has a count
  of its own.
\<close>

definition profile_managers :: Managers where
  "profile_managers =
     \<lparr>stateManager =
        new_ReactiveState
          (object_literal [''user'' \<mapsto> JObj 1, ''count'' \<mapsto> JNum 0, ''count1'' \<mapsto> JNum 7,
             ''step'' \<mapsto> JNum 1]),
      globalManager = new_ReactiveState (object_literal Map.empty)\<rparr>"

definition item_variables :: variables where
  "item_variables =
     LocalProxy (createLocalProxy (object_literal [''item'' \<mapsto> JStr ''a'', ''index'' \<mapsto> JNum 0])
                   (stateManager profile_managers) 10 11)"

definition item_managers :: Managers where
  "item_managers =
     \<lparr>stateManager = new_ReactiveState (object_literal [''item'' \<mapsto> JStr ''a'', ''index'' \<mapsto> JNum 0]),
      globalManager = stateManager profile_managers\<rparr>"

definition shadowing_variables :: variables where
  "shadowing_variables =
     LocalProxy (createLocalProxy (object_literal [''count'' \<mapsto> JStr ''a'', ''index'' \<mapsto> JNum 0])
                   (stateManager profile_managers) 10 11)"

lemmas token_defs =
  getTokensFromExpression_def splitTokens_def trim_def isTokenChar_def isWhiteSpace_def
  rootOf_def isInVars_def isIn_globalState_def isInGlobalStore_def
  has_property_def object_literal_def objectPrototype_def

lemma profile_tokens:
  "getTokensFromExpression ''{count}'' StoreProxy (stateManager profile_managers) = [''count'']"
  "getTokensFromExpression ''{count + 1}'' StoreProxy (stateManager profile_managers) = [''count'']"
  "getTokensFromExpression ''{count + step}'' StoreProxy (stateManager profile_managers) = [''count'', ''step'']"
  "getTokensFromExpression ''{user.first + user.last}'' StoreProxy (stateManager profile_managers) = [''user'', ''user'']"
  "getTokensFromExpression ''{count + toString}'' StoreProxy (stateManager profile_managers) = [''count'', ''toString'']"
  "getTokensFromExpression ''{count1}'' StoreProxy (stateManager profile_managers) = [''count'']"
  "getTokensFromExpression ''{[count].map(step => step)}'' StoreProxy (stateManager profile_managers)
     = [''count'', ''step'']"
  "getTokensFromExpression ''{[...user]}'' StoreProxy (stateManager profile_managers) = []"
  by (simp_all add: token_defs profile_managers_def new_ReactiveState_def)

lemma item_tokens:
  "getTokensFromExpression ''{count}'' item_variables (stateManager item_managers) = [''count'']"
  "getTokensFromExpression ''{item}'' item_variables (stateManager item_managers) = [''item'']"
  "getTokensFromExpression ''{item + count}'' item_variables (stateManager item_managers) = [''item'', ''count'']"
  "getTokensFromExpression ''{item + index}'' item_variables (stateManager item_managers) = [''item'', ''index'']"
  "isIn_globalState item_variables ''count''"
  "\<not> isIn_globalState item_variables ''item''"
  "\<not> isIn_globalState item_variables ''index''"
  "isInVars item_variables (stateManager item_managers) ''item''"
  "\<not> isInVars item_variables (stateManager item_managers) ''count''"
  by (simp_all add: token_defs item_variables_def item_managers_def profile_managers_def
      createLocalProxy_def new_ReactiveState_def)


lemma plain_paths_examples:
  "plain_paths ''{count}''" "plain_paths ''{count + 1}''" "plain_paths ''{count + step}''"
  "plain_paths ''{item}''" "plain_paths ''{item + index}''"
  "plain_paths ''{[count].map(step => step)}''"
  "\<not> plain_paths ''{count1}''"
  by (simp_all add: plain_paths_def isOtherIdentifierChar_def isTokenChar_def)




text \<open>
  What the claim above leaves out, at concrete inputs. An identifier with a digit is cut
  at the digit: \<^verbatim>\<open>{count1}\<close> subscribes the callback to count, not to count1. An
  inherited name counts as a key: \<^verbatim>\<open>{count + toString}\<close> is registered as an
  expression over two keys. A path after a spread starts with dots, so it names the
  empty key: \<^verbatim>\<open>{[...user]}\<close> is registered as an expression over no key. A key that the scope of a loop item and the global state both
  have is subscribed on the global manager, although the scope reads its own binding. (An
  expression of a loop item over a local and a global key is registered on the global
  manager and then raises, see the last section.)
\<close>

lemma register_left_out:
  "\<not> plain_paths ''{count1}''"
  "registerDependencies ''{count + toString}'' StoreProxy 7 profile_managers =
     (None, profile_managers\<lparr>stateManager :=
              snd (addExpression [''count'', ''toString''] 7 (stateManager profile_managers))\<rparr>)"
  "registerDependencies ''{count1}'' StoreProxy 7 profile_managers =
     (None, profile_managers\<lparr>stateManager := subscribe ''count'' 7 (stateManager profile_managers)\<rparr>)"
  "registerDependencies ''{[...user]}'' StoreProxy 7 profile_managers =
     (None, profile_managers\<lparr>stateManager :=
              snd (addExpression [] 7 (stateManager profile_managers))\<rparr>)"
  "isInVars shadowing_variables (stateManager item_managers) ''count''"
  "isIn_globalState shadowing_variables ''count''"
  "scope_get (case shadowing_variables of LocalProxy sc \<Rightarrow> sc) (globalManager item_managers) ''count''
     = JStr ''a''"
  "registerDependencies ''{count}'' shadowing_variables 7 item_managers =
     (None, item_managers\<lparr>globalManager := subscribe ''count'' 7 (globalManager item_managers)\<rparr>)"
proof -
  show "\<not> plain_paths ''{count1}''"
    by (rule plain_paths_examples)
  show "registerDependencies ''{count + toString}'' StoreProxy 7 profile_managers =
     (None, profile_managers\<lparr>stateManager :=
              snd (addExpression [''count'', ''toString''] 7 (stateManager profile_managers))\<rparr>)"
    by (simp add: profile_tokens registerDependencies_def matchBraces_def register_expression_def
        isIn_globalState_def)
  show "registerDependencies ''{count1}'' StoreProxy 7 profile_managers =
     (None, profile_managers\<lparr>stateManager := subscribe ''count'' 7 (stateManager profile_managers)\<rparr>)"
    by (simp add: profile_tokens registerDependencies_def matchBraces_def register_expression_def
        isIn_globalState_def)
  show "registerDependencies ''{[...user]}'' StoreProxy 7 profile_managers =
     (None, profile_managers\<lparr>stateManager :=
              snd (addExpression [] 7 (stateManager profile_managers))\<rparr>)"
    by (simp add: profile_tokens registerDependencies_def matchBraces_def register_expression_def)
  have t: "getTokensFromExpression ''{count}'' shadowing_variables (stateManager item_managers) = [''count'']"
    by (simp add: token_defs shadowing_variables_def item_managers_def profile_managers_def
        createLocalProxy_def new_ReactiveState_def)
  show v: "isInVars shadowing_variables (stateManager item_managers) ''count''"
    and g: "isIn_globalState shadowing_variables ''count''"
    by (simp_all add: token_defs shadowing_variables_def item_managers_def profile_managers_def
        createLocalProxy_def new_ReactiveState_def)
  show "scope_get (case shadowing_variables of LocalProxy sc \<Rightarrow> sc) (globalManager item_managers) ''count''
     = JStr ''a''"
    by (simp add: shadowing_variables_def scope_get_def createLocalProxy_def has_property_def
        get_prop_def object_literal_def)
  show "registerDependencies ''{count}'' shadowing_variables 7 item_managers =
     (None, item_managers\<lparr>globalManager := subscribe ''count'' 7 (globalManager item_managers)\<rparr>)"
    using t g by (simp add: registerDependencies_def matchBraces_def register_expression_def)
qed

section \<open>Claim about raising\<close>

text \<open>
  Claim C1 at concrete inputs.
  \<^item> A handler argument \<^verbatim>\<open>true\<close> raises a ReferenceError, and an argument
    \<^verbatim>\<open>profile.name\<close> over a store that has no \<^verbatim>\<open>profile\<close> raises a TypeError; a
    plain name is evaluated.
  \<^item> A loop whose element is the last child of its parent, so that the closing marker is
    missing, raises in the head of \<^verbatim>\<open>parseEachBlocks\<close>, and so does a marker with no
    element after it; with a sibling after the element the head returns, and logs when
    that sibling is not the closing marker.
  \<^item> Registering, inside a loop item, an expression over a local and a global key raises
    a ReferenceError.
\<close>

theorem engine_raises:
  "getArgumentValue has evaluate ''true'' StoreProxy profile_managers = ([], Inl ReferenceError)
   \<and> getArgumentValue has evaluate ''profile.name'' StoreProxy profile_managers = ([], Inl TypeError)
   \<and> getArgumentValue has evaluate ''step'' StoreProxy profile_managers = ([], Inr (evaluate ''step''))
   \<and> each_head ''{for:each item of items}'' [ElementNode] = ([], Inl TypeError)
   \<and> each_head ''{for:each item of items}'' [] = ([], Inl TypeError)
   \<and> each_head ''{for:each item of items}'' [ElementNode, TextNode ''{end:each}''] = ([], Inr ())
   \<and> each_head ''{for:each item of items}'' [ElementNode, TextNode ''. ''] =
       ([ExpectedClosing ''{for:each item of items}''], Inr ())
   \<and> fst (registerDependencies ''{item + count}'' item_variables 7 item_managers) = Some ReferenceError"
proof -
  have "fst (registerDependencies ''{item + count}'' item_variables 7 item_managers) = Some ReferenceError"
    using item_tokens(3,5)
    by (simp add: registerDependencies_def matchBraces_def register_expression_def)
  moreover have "getArgumentValue has evaluate ''true'' StoreProxy profile_managers = ([], Inl ReferenceError)"
    "getArgumentValue has evaluate ''profile.name'' StoreProxy profile_managers = ([], Inl TypeError)"
    "getArgumentValue has evaluate ''step'' StoreProxy profile_managers = ([], Inr (evaluate ''step''))"
    by (simp_all add: getArgumentValue_def Booleans_def variables_get_def proxy_get_def
        profile_managers_def new_ReactiveState_def has_property_def get_prop_def object_literal_def
        objectPrototype_def)
  ultimately show ?thesis
    by (simp add: each_head_def endEach_test_def)
qed

end
